theory Spec2Isabelle
  imports Main
begin

section \<open>Python values used by the autoload code\<close>

text \<open>
  The exceptions that the modelled parts of \<^verbatim>\<open>cisco_generic_snmp_autoload.py\<close> can
  raise. \<open>PyException\<close> carries the message of an explicit \<^verbatim>\<open>raise Exception(...)\<close>;
  \<open>RecursionError\<close> is the interpreter's "maximum recursion depth exceeded".
\<close>

datatype error =
    ValueError
  | KeyError
  | IndexError
  | AttributeError
  | RecursionError
  | PyException string

subsection \<open>Strings: \<^verbatim>\<open>lower\<close>, \<^verbatim>\<open>in\<close>, \<^verbatim>\<open>split\<close>, \<^verbatim>\<open>join\<close>\<close>

definition lower_char :: "char \<Rightarrow> char" where
  "lower_char c =
     (case map_of (zip ''ABCDEFGHIJKLMNOPQRSTUVWXYZ'' ''abcdefghijklmnopqrstuvwxyz'') c of
        None \<Rightarrow> c
      | Some l \<Rightarrow> l)"

definition lower :: "string \<Rightarrow> string" where
  "lower s = map lower_char s"

text \<open>\<open>contains s p\<close> is Python's \<^verbatim>\<open>p in s\<close> on strings: \<open>p\<close> occurs in \<open>s\<close>.\<close>

fun is_prefix :: "string \<Rightarrow> string \<Rightarrow> bool" where
  "is_prefix [] s = True"
| "is_prefix (p # ps) [] = False"
| "is_prefix (p # ps) (c # cs) = (p = c \<and> is_prefix ps cs)"

fun contains :: "string \<Rightarrow> string \<Rightarrow> bool" where
  "contains [] p = (p = [])"
| "contains (c # cs) p = (is_prefix p (c # cs) \<or> contains cs p)"

text \<open>\<open>split_on c s\<close> is \<^verbatim>\<open>s.split(c)\<close> for a one-character separator.\<close>

fun split_on :: "char \<Rightarrow> string \<Rightarrow> string list" where
  "split_on c [] = [[]]"
| "split_on c (x # xs) =
     (if x = c then [] # split_on c xs
      else (case split_on c xs of
              [] \<Rightarrow> [[x]]
            | y # ys \<Rightarrow> (x # y) # ys))"

text \<open>\<open>join c parts\<close> is \<^verbatim>\<open>c.join(parts)\<close>.\<close>

fun join :: "char \<Rightarrow> string list \<Rightarrow> string" where
  "join c [] = []"
| "join c [p] = p"
| "join c (p # q # ps) = p @ c # join c (q # ps)"

definition is_space :: "char \<Rightarrow> bool" where
  "is_space c = (c \<in> set [CHR '' '', CHR 0x09, CHR 0x0A, CHR 0x0B, CHR 0x0C, CHR 0x0D])"

text \<open>\<open>split_ws s\<close> is \<^verbatim>\<open>s.split()\<close>: the maximal runs of non-blank characters.\<close>

fun split_ws_aux :: "string \<Rightarrow> string \<Rightarrow> string list" where
  "split_ws_aux cur [] = (if cur = [] then [] else [cur])"
| "split_ws_aux cur (x # xs) =
     (if is_space x then (if cur = [] then split_ws_aux [] xs else cur # split_ws_aux [] xs)
      else split_ws_aux (cur @ [x]) xs)"

definition split_ws :: "string \<Rightarrow> string list" where
  "split_ws s = split_ws_aux [] s"

subsection \<open>Integers: \<^verbatim>\<open>int(s)\<close> and \<^verbatim>\<open>str(n)\<close>\<close>

definition is_digit :: "char \<Rightarrow> bool" where
  "is_digit c = (c \<in> set ''0123456789'')"

definition digit_val :: "char \<Rightarrow> nat" where
  "digit_val c =
     (case map_of (zip ''0123456789'' [0, 1, 2, 3, 4, 5, 6, 7, 8, 9]) c of
        None \<Rightarrow> 0
      | Some d \<Rightarrow> d)"

definition digit_char :: "nat \<Rightarrow> char" where
  "digit_char d = ''0123456789'' ! (d mod 10)"

fun nat_of_digits :: "nat \<Rightarrow> string \<Rightarrow> nat" where
  "nat_of_digits acc [] = acc"
| "nat_of_digits acc (c # cs) = nat_of_digits (10 * acc + digit_val c) cs"

fun digits_of :: "nat \<Rightarrow> string" where
  "digits_of n = (if n < 10 then [digit_char n] else digits_of (n div 10) @ [digit_char n])"

declare digits_of.simps [simp del]

definition strip :: "string \<Rightarrow> string" where
  "strip s = rev (dropWhile is_space (rev (dropWhile is_space s)))"

text \<open>
  \<open>py_int s\<close> is \<^verbatim>\<open>int(s)\<close> on a string: blanks around the literal are ignored, one
  sign is allowed, and at least one decimal digit must follow; anything else is the
  \<^verbatim>\<open>ValueError\<close> of the source, here \<open>None\<close>.
\<close>

definition unsigned :: "string \<Rightarrow> int option" where
  "unsigned ds = (if ds \<noteq> [] \<and> list_all is_digit ds then Some (int (nat_of_digits 0 ds)) else None)"

definition py_int :: "string \<Rightarrow> int option" where
  "py_int s =
     (case strip s of
        [] \<Rightarrow> None
      | c # cs \<Rightarrow>
          if c = CHR ''-'' then map_option uminus (unsigned cs)
          else if c = CHR ''+'' then unsigned cs
          else unsigned (c # cs))"

definition py_str :: "int \<Rightarrow> string" where
  "py_str n = (if n < 0 then CHR ''-'' # digits_of (nat (- n)) else digits_of (nat n))"

section \<open>IP address attributes (\<^verbatim>\<open>_get_ip_interface_details\<close>)\<close>

text \<open>
  An SNMP table is an ordered dictionary from a key to a row, the row a dictionary from
  field names to strings. \<open>ip_scan\<close> is one \<^verbatim>\<open>for key, value in table.iteritems()\<close>
  loop of the source: the \<^verbatim>\<open>break\<close> stands at the level of the loop body, so the loop
  ends after its first entry whether or not that entry matched; \<open>acc\<close> is the value the
  attribute has before the loop.
\<close>

type_synonym snmp_row = "string \<rightharpoonup> string"
type_synonym 'k snmp_table = "('k \<times> snmp_row) list"

record interface_details =
  ipv4_address :: string
  ipv6_address :: string

fun ip_scan :: "string snmp_table \<Rightarrow> int \<Rightarrow> string \<Rightarrow> error + string" where
  "ip_scan [] port_index acc = Inr acc"
| "ip_scan ((key, val) # rest) port_index acc =
     (case val ''ipAdEntIfIndex'' of
        None \<Rightarrow> Inr acc
      | Some v \<Rightarrow>
          (case py_int v of
             None \<Rightarrow> Inl ValueError
           | Some n \<Rightarrow> if n = port_index then Inr key else Inr acc))"

definition ip_lookup :: "string snmp_table \<Rightarrow> int \<Rightarrow> error + string" where
  "ip_lookup table port_index =
     (if table \<noteq> [] \<and> length table > 1 then ip_scan table port_index '''' else Inr '''')"

definition get_ip_interface_details ::
  "string snmp_table \<Rightarrow> string snmp_table \<Rightarrow> int \<Rightarrow> error + interface_details" where
  "get_ip_interface_details ip_v4_table ip_v6_table port_index =
     (case ip_lookup ip_v4_table port_index of
        Inl e \<Rightarrow> Inl e
      | Inr v4 \<Rightarrow>
          (case ip_lookup ip_v6_table port_index of
             Inl e \<Rightarrow> Inl e
           | Inr v6 \<Rightarrow> Inr \<lparr>ipv4_address = v4, ipv6_address = v6\<rparr>))"

section \<open>The state of a \<^verbatim>\<open>CiscoGenericSNMPAutoload\<close> instance\<close>

text \<open>
  Errors are values: \<open>and_then m f\<close> runs \<open>f\<close> on the result of \<open>m\<close> unless \<open>m\<close> raised.
\<close>

definition and_then :: "error + 'a \<Rightarrow> ('a \<Rightarrow> error + 'b) \<Rightarrow> error + 'b" where
  "and_then m f = (case m of Inl e \<Rightarrow> Inl e | Inr x \<Rightarrow> f x)"

text \<open>
  Python dictionaries are association lists with distinct keys, in insertion order:
  \<open>dict_get\<close> is \<^verbatim>\<open>d[k]\<close> (a \<^verbatim>\<open>KeyError\<close> for a missing key), \<open>dict_set\<close> is
  \<^verbatim>\<open>d[k] = v\<close>, \<open>has_key\<close> is \<^verbatim>\<open>k in d\<close> and \<open>dict_values\<close> is \<^verbatim>\<open>d.values()\<close>.
\<close>

definition dict_get :: "('k \<times> 'v) list \<Rightarrow> 'k \<Rightarrow> error + 'v" where
  "dict_get d k = (case map_of d k of None \<Rightarrow> Inl KeyError | Some v \<Rightarrow> Inr v)"

fun dict_set :: "'k \<Rightarrow> 'v \<Rightarrow> ('k \<times> 'v) list \<Rightarrow> ('k \<times> 'v) list" where
  "dict_set k v [] = [(k, v)]"
| "dict_set k v ((k', v') # d) = (if k' = k then (k, v) # d else (k', v') # dict_set k v d)"

definition has_key :: "('k \<times> 'v) list \<Rightarrow> 'k \<Rightarrow> bool" where
  "has_key d k = (map_of d k \<noteq> None)"

definition dict_values :: "('k \<times> 'v) list \<Rightarrow> 'v list" where
  "dict_values d = map snd d"

text \<open>
  \<open>search_any alts s\<close> is \<^verbatim>\<open>re.search('a|b|c', s)\<close> for a pattern that is an
  alternation of plain words: one of the words occurs in \<open>s\<close>.
\<close>

definition search_any :: "string list \<Rightarrow> string \<Rightarrow> bool" where
  "search_any alts s = list_ex (contains s) alts"

text \<open>
  The value of \<^verbatim>\<open>entPhysicalContainedIn\<close> is the string read over SNMP until
  \<^verbatim>\<open>_filter_lower_bay_containers\<close> stores the integer index of the upper bay in it;
  \<open>to_int\<close> is \<^verbatim>\<open>int(...)\<close> on such a value.
\<close>

datatype pyval = PyStr string | PyInt int

fun to_int :: "pyval \<Rightarrow> error + int" where
  "to_int (PyStr s) = (case py_int s of None \<Rightarrow> Inl ValueError | Some n \<Rightarrow> Inr n)"
| "to_int (PyInt n) = Inr n"

record entity_row =
  entPhysicalParentRelPos :: string
  entPhysicalContainedIn :: pyval
  entPhysicalClass :: string
  entPhysicalVendorType :: string
  entPhysicalDescr :: string
  entPhysicalName :: string

type_synonym entity_table = "(int \<times> entity_row) list"

record if_row =
  ifDescr :: string
  suffix :: string

type_synonym if_table = "(int \<times> if_row) list"

text \<open>
  The attributes of the instance that the modelled methods read and write.
  \<open>entity_table\<close> is \<open>None\<close> while the attribute does not exist: \<^verbatim>\<open>__init__\<close> does not
  create it, \<^verbatim>\<open>_load_snmp_tables\<close> assigns it when \<^verbatim>\<open>_get_entity_table\<close> has returned.
  \<open>resources\<close> and \<open>attributes\<close> hold the relative address (and the attribute name and
  value) of each emitted item.
\<close>

record autoload =
  exclusion_list :: "int list"
  excluded_models :: "int list"
  module_list :: "int list"
  chassis_list :: "int list"
  port_list :: "int list"
  power_supply_list :: "int list"
  relative_path :: "(int \<times> string) list"
  port_mapping :: "(int \<times> int) list"
  if_table :: if_table
  entity_table :: "entity_table option"
  resources :: "(string \<times> string) list"
  attributes :: "(string \<times> string \<times> string) list"

definition init :: autoload where
  "init = \<lparr>exclusion_list = [], excluded_models = [], module_list = [], chassis_list = [],
            port_list = [], power_supply_list = [], relative_path = [], port_mapping = [],
            if_table = [], entity_table = None, resources = [], attributes = []\<rparr>"

definition entity_table_black_list :: "string list" where
  "entity_table_black_list = [''alarm'', ''fan'', ''sensor'']"

definition port_exclude_pattern :: "string list" where
  "port_exclude_pattern =
     [''serial'', ''stack'', ''engine'', ''management'', ''mgmt'', ''voice'', ''foreign'']"

definition module_exclude_pattern :: "string list" where
  "module_exclude_pattern = [''cevsfp'']"

text \<open>\<open>self_entity_table s\<close> is the read of \<^verbatim>\<open>self.entity_table\<close>.\<close>

definition self_entity_table :: "autoload \<Rightarrow> error + entity_table" where
  "self_entity_table s = (case entity_table s of None \<Rightarrow> Inl AttributeError | Some et \<Rightarrow> Inr et)"

subsection \<open>The SNMP handler\<close>

text \<open>
  The answers of the device, as far as the modelled methods ask for them:
  \<^item> \<open>physical_indexes\<close>: \<^verbatim>\<open>get_table('ENTITY-MIB', 'entPhysicalParentRelPos')\<close>, index
    and value of each row, in the order of the table;
  \<^item> \<open>critical_attr\<close>: \<^verbatim>\<open>get_properties\<close> for \<^verbatim>\<open>entPhysicalContainedIn\<close>,
    \<^verbatim>\<open>entPhysicalClass\<close> and \<^verbatim>\<open>entPhysicalVendorType\<close> of an index;
  \<^item> \<open>optional_attr\<close>: \<^verbatim>\<open>get_properties\<close> for \<^verbatim>\<open>entPhysicalDescr\<close> and
    \<^verbatim>\<open>entPhysicalName\<close>;
  \<^item> \<open>vendor_type_property\<close>: \<^verbatim>\<open>get_property('ENTITY-MIB', 'entPhysicalVendorType', i)\<close>;
  \<^item> \<open>alias_mapping\<close>: the \<^verbatim>\<open>entAliasMappingIdentifier\<close> of an index, \<open>None\<close> when the
    query raises;
  \<^item> \<open>if_descr_table\<close>: \<^verbatim>\<open>get_table('IF-MIB', 'ifDescr')\<close>.
\<close>

record snmp =
  physical_indexes :: "(int \<times> string) list"
  critical_attr :: "int \<Rightarrow> string \<times> string \<times> string"
  optional_attr :: "int \<Rightarrow> string \<times> string"
  vendor_type_property :: "int \<Rightarrow> string"
  alias_mapping :: "int \<Rightarrow> string option"
  if_descr_table :: if_table

section \<open>Physical to logical port mapping (\<^verbatim>\<open>_get_mapping\<close>)\<close>

text \<open>\<open>digit_runs s\<close> is \<^verbatim>\<open>re.findall('\d+', s)\<close>.\<close>

fun digit_runs_aux :: "string \<Rightarrow> string \<Rightarrow> string list" where
  "digit_runs_aux cur [] = (if cur = [] then [] else [cur])"
| "digit_runs_aux cur (x # xs) =
     (if is_digit x then digit_runs_aux (cur @ [x]) xs
      else (if cur = [] then digit_runs_aux [] xs else cur # digit_runs_aux [] xs))"

definition digit_runs :: "string \<Rightarrow> string list" where
  "digit_runs s = digit_runs_aux [] s"

text \<open>
  The fallback of \<^verbatim>\<open>_get_mapping\<close>: the first interface whose description contains
  the digit groups of the port description joined by \<^verbatim>\<open>/\<close>; its \<^verbatim>\<open>suffix\<close> is read
  with \<^verbatim>\<open>int\<close>, outside any \<^verbatim>\<open>try\<close>.
\<close>

fun first_interface :: "string \<Rightarrow> if_row list \<Rightarrow> error + int option" where
  "first_interface if_table_re [] = Inr None"
| "first_interface if_table_re (interface # rest) =
     (if contains (ifDescr interface) if_table_re
      then (case py_int (suffix interface) of None \<Rightarrow> Inl ValueError | Some n \<Rightarrow> Inr (Some n))
      else first_interface if_table_re rest)"

definition get_mapping :: "snmp \<Rightarrow> if_table \<Rightarrow> int \<Rightarrow> string \<Rightarrow> error + int option" where
  "get_mapping sn self_if_table port_index port_descr =
     (case (case alias_mapping sn port_index of
              None \<Rightarrow> None
            | Some ident \<Rightarrow> py_int (last (split_on CHR ''.'' ident))) of
        Some port_id \<Rightarrow> Inr (Some port_id)
      | None \<Rightarrow>
          first_interface (join CHR ''/'' (digit_runs port_descr)) (dict_values self_if_table))"

section \<open>Loading and classifying the entity table (\<^verbatim>\<open>_get_entity_table\<close>)\<close>

text \<open>The class inferred from the vendor type when \<^verbatim>\<open>entPhysicalClass\<close> is empty.\<close>

definition infer_class :: "string \<Rightarrow> string option" where
  "infer_class vendor_type =
     (if contains (lower vendor_type) ''cevcontainer'' then Some ''container''
      else if contains (lower vendor_type) ''cevchassis'' then Some ''chassis''
      else if contains (lower vendor_type) ''cevmodule'' then Some ''module''
      else if contains (lower vendor_type) ''cevport'' then Some ''port''
      else if contains (lower vendor_type) ''cevpowersupply'' then Some ''powerSupply''
      else None)"

text \<open>\<open>remove_quotes s\<close> is \<^verbatim>\<open>s.replace("'", "")\<close>.\<close>

definition remove_quotes :: "string \<Rightarrow> string" where
  "remove_quotes s = filter (\<lambda>c. c \<noteq> CHR 0x27) s"

definition structural_classes :: "string list" where
  "structural_classes =
     [''stack'', ''chassis'', ''module'', ''port'', ''powerSupply'', ''container'', ''backplane'']"

text \<open>
  Lines 232 to 243: the three index lists. A port row is kept when neither its name nor
  its description matches the exclusion pattern, and \<^verbatim>\<open>port_id\<close> is truthy (neither
  \<^verbatim>\<open>None\<close> nor \<open>0\<close>), a key of the interface table, and not yet a value of the port
  mapping.
\<close>

definition port_name_allowed :: "entity_row \<Rightarrow> bool" where
  "port_name_allowed row =
     (\<not> search_any port_exclude_pattern (lower (entPhysicalName row))
      \<and> \<not> search_any port_exclude_pattern (lower (entPhysicalDescr row)))"

definition index_lists :: "snmp \<Rightarrow> int \<Rightarrow> entity_row \<Rightarrow> autoload \<Rightarrow> error + autoload" where
  "index_lists sn index row s =
     (if entPhysicalClass row = ''chassis'' then Inr (s\<lparr>chassis_list := chassis_list s @ [index]\<rparr>)
      else if entPhysicalClass row = ''port'' then
        (if port_name_allowed row then
           and_then (get_mapping sn (if_table s) index (entPhysicalDescr row)) (\<lambda>port_id.
             case port_id of
               None \<Rightarrow> Inr s
             | Some pid \<Rightarrow>
                 if pid \<noteq> 0 \<and> has_key (if_table s) pid \<and> pid \<notin> set (dict_values (port_mapping s))
                 then Inr (s\<lparr>port_mapping := dict_set index pid (port_mapping s),
                             port_list := port_list s @ [index]\<rparr>)
                 else Inr s)
         else Inr s)
      else if entPhysicalClass row = ''powerSupply''
        then Inr (s\<lparr>power_supply_list := power_supply_list s @ [index]\<rparr>)
      else Inr s)"

text \<open>
  Lines 208 to 230: the class of the row (\<open>None\<close> stands for the \<^verbatim>\<open>continue\<close> on an
  empty vendor type).
\<close>

definition resolve_class :: "snmp \<Rightarrow> int \<Rightarrow> string \<Rightarrow> string option" where
  "resolve_class sn index cls =
     (if cls = '''' then
        (let vendor_type = vendor_type_property sn index in
         if vendor_type = '''' then None
         else (case infer_class vendor_type of None \<Rightarrow> Some cls | Some c \<Rightarrow> Some c))
      else Some (remove_quotes cls))"

text \<open>
  One turn of the loop over \<^verbatim>\<open>physical_indexes\<close>; \<open>result_dict\<close> is the table under
  construction.
\<close>

definition classify_row ::
  "snmp \<Rightarrow> int \<times> string \<Rightarrow> entity_table \<times> autoload \<Rightarrow> error + entity_table \<times> autoload" where
  "classify_row sn entry acc =
     (case (entry, acc) of ((index, rel_pos), (result_dict, s)) \<Rightarrow>
        if rel_pos = '''' then Inr (result_dict, s\<lparr>exclusion_list := exclusion_list s @ [index]\<rparr>)
        else
          (case critical_attr sn index of (contained_in, cls, vendor_type) \<Rightarrow>
             let s1 = (if contained_in = '''' then s\<lparr>exclusion_list := exclusion_list s @ [index]\<rparr>
                       else s);
                 is_excluded = (contained_in = ''''
                                \<or> list_ex (contains (lower vendor_type)) entity_table_black_list)
             in if is_excluded then Inr (result_dict, s1)
                else
                  (case optional_attr sn index of (descr, name) \<Rightarrow>
                     (case resolve_class sn index cls of
                        None \<Rightarrow> Inr (result_dict, s1)
                      | Some cls' \<Rightarrow>
                          let row = \<lparr>entPhysicalParentRelPos = rel_pos,
                                     entPhysicalContainedIn = PyStr contained_in,
                                     entPhysicalClass = cls',
                                     entPhysicalVendorType = vendor_type,
                                     entPhysicalDescr = descr,
                                     entPhysicalName = name\<rparr>;
                              result_dict' = (if search_any structural_classes cls'
                                              then dict_set index row result_dict
                                              else result_dict)
                          in and_then (index_lists sn index row s1)
                               (\<lambda>s2. Inr (result_dict', s2))))))"

fun classify_rows ::
  "snmp \<Rightarrow> (int \<times> string) list \<Rightarrow> entity_table \<times> autoload \<Rightarrow> error + entity_table \<times> autoload" where
  "classify_rows sn [] acc = Inr acc"
| "classify_rows sn (entry # rest) acc =
     (case classify_row sn entry acc of
        Inl e \<Rightarrow> Inl e
      | Inr acc' \<Rightarrow> classify_rows sn rest acc')"

section \<open>Exclusion propagation (\<^verbatim>\<open>_filter_entity_table\<close>)\<close>

text \<open>
  \<open>elements\<close> is the list that
  \<^verbatim>\<open>raw_entity_table.filter_by_column('ContainedIn').sort_by_column('ParentRelPos').keys()\<close>
  returns. \<^verbatim>\<open>QualiMibTable\<close> belongs to another package, so the list is a parameter;
  the loop walks it in reverse. The parent is read from \<^verbatim>\<open>self.entity_table\<close>, not from
  \<^verbatim>\<open>raw_entity_table\<close>.
\<close>

definition filter_step :: "entity_table \<Rightarrow> int \<Rightarrow> autoload \<Rightarrow> error + autoload" where
  "filter_step raw_entity_table element s =
     and_then (self_entity_table s) (\<lambda>et.
     and_then (dict_get et element) (\<lambda>row.
     and_then (to_int (entPhysicalContainedIn row)) (\<lambda>parent_id.
       if \<not> has_key raw_entity_table parent_id \<or> parent_id \<in> set (exclusion_list s)
       then Inr (s\<lparr>exclusion_list := exclusion_list s @ [element]\<rparr>)
       else Inr s)))"

fun filter_loop :: "entity_table \<Rightarrow> int list \<Rightarrow> autoload \<Rightarrow> error + autoload" where
  "filter_loop raw_entity_table [] s = Inr s"
| "filter_loop raw_entity_table (element # rest) s =
     (case filter_step raw_entity_table element s of
        Inl e \<Rightarrow> Inl e
      | Inr s' \<Rightarrow> filter_loop raw_entity_table rest s')"

definition filter_entity_table :: "int list \<Rightarrow> entity_table \<Rightarrow> autoload \<Rightarrow> error + autoload" where
  "filter_entity_table elements raw_entity_table s = filter_loop raw_entity_table (rev elements) s"

text \<open>
  \<^verbatim>\<open>_get_entity_table\<close>: the loop over the rows, then the exclusion propagation on the
  table it built; \<open>elements_of\<close> computes the list of the elements of a table (see
  \<open>filter_entity_table\<close>).
\<close>

definition get_entity_table ::
  "(entity_table \<Rightarrow> int list) \<Rightarrow> snmp \<Rightarrow> autoload \<Rightarrow> error + entity_table \<times> autoload" where
  "get_entity_table elements_of sn s =
     and_then (classify_rows sn (physical_indexes sn) ([], s)) (\<lambda>(result_dict, s1).
     and_then (filter_entity_table (elements_of result_dict) result_dict s1) (\<lambda>s2.
       Inr (result_dict, s2)))"

text \<open>
  \<^verbatim>\<open>_load_snmp_tables\<close>, as far as the entity table goes: the interface table is read
  first, and an entity table without rows is an error.
\<close>

definition load_snmp_tables ::
  "(entity_table \<Rightarrow> int list) \<Rightarrow> snmp \<Rightarrow> autoload \<Rightarrow> error + autoload" where
  "load_snmp_tables elements_of sn s =
     and_then (get_entity_table elements_of sn (s\<lparr>if_table := if_descr_table sn\<rparr>))
       (\<lambda>(result_dict, s1).
          if length result_dict < 1
          then Inl (PyException ''Cannot load entPhysicalTable. Autoload cannot continue'')
          else Inr (s1\<lparr>entity_table := Some result_dict\<rparr>))"

section \<open>Walks over the parent pointers\<close>

text \<open>
  The recursive methods carry the number of stack frames that are still available: a call
  that finds none raises the interpreter's \<open>RecursionError\<close>, which is what a cycle of
  parent pointers ends in.

  \<open>parent_of s i\<close> is \<^verbatim>\<open>int(self.entity_table[i]['entPhysicalContainedIn'])\<close>.
\<close>

definition parent_of :: "autoload \<Rightarrow> int \<Rightarrow> error + int" where
  "parent_of s item_id =
     and_then (self_entity_table s) (\<lambda>et.
     and_then (dict_get et item_id) (\<lambda>row. to_int (entPhysicalContainedIn row)))"

text \<open>\<open>row_of s i\<close> is \<^verbatim>\<open>self.entity_table[i]\<close>.\<close>

definition row_of :: "autoload \<Rightarrow> int \<Rightarrow> error + entity_row" where
  "row_of s item_id = and_then (self_entity_table s) (\<lambda>et. dict_get et item_id)"

text \<open>\<open>in_entity_table s i\<close> is \<^verbatim>\<open>i in self.entity_table\<close>, made after a successful read.\<close>

definition in_entity_table :: "autoload \<Rightarrow> int \<Rightarrow> bool" where
  "in_entity_table s item_id = (case entity_table s of None \<Rightarrow> False | Some et \<Rightarrow> has_key et item_id)"

fun get_module_parents :: "nat \<Rightarrow> autoload \<Rightarrow> int \<Rightarrow> error + int list" where
  "get_module_parents 0 s module_id = Inl RecursionError"
| "get_module_parents (Suc depth) s module_id =
     (case parent_of s module_id of
        Inl e \<Rightarrow> Inl e
      | Inr parent_id \<Rightarrow>
          if parent_id > 0 \<and> in_entity_table s parent_id then
            (case row_of s parent_id of
               Inl e \<Rightarrow> Inl e
             | Inr parent_row \<Rightarrow>
                 if contains (entPhysicalClass parent_row) ''module'' then
                   (case get_module_parents depth s parent_id of
                      Inl e \<Rightarrow> Inl e
                    | Inr rest \<Rightarrow> Inr (parent_id # rest))
                 else if contains (entPhysicalClass parent_row) ''chassis'' then Inr []
                 else get_module_parents depth s parent_id)
          else Inr [])"

fun get_resource_id :: "nat \<Rightarrow> autoload \<Rightarrow> int \<Rightarrow> error + string" where
  "get_resource_id 0 s item_id = Inl RecursionError"
| "get_resource_id (Suc depth) s item_id =
     (case parent_of s item_id of
        Inl e \<Rightarrow> Inl e
      | Inr parent_id \<Rightarrow>
          if parent_id > 0 \<and> in_entity_table s parent_id then
            (case row_of s parent_id of
               Inl e \<Rightarrow> Inl e
             | Inr parent_row \<Rightarrow>
                 if search_any [''container'', ''backplane''] (entPhysicalClass parent_row)
                 then Inr (entPhysicalParentRelPos parent_row)
                 else if parent_id \<in> set (excluded_models s)
                 then get_resource_id depth s parent_id
                 else map_sum id entPhysicalParentRelPos (row_of s item_id))
          else map_sum id entPhysicalParentRelPos (row_of s item_id))"

fun get_relative_path :: "nat \<Rightarrow> autoload \<Rightarrow> int \<Rightarrow> error + string" where
  "get_relative_path 0 s item_id = Inl RecursionError"
| "get_relative_path (Suc depth) s item_id =
     (if item_id \<notin> set (chassis_list s) then
        (case parent_of s item_id of
           Inl e \<Rightarrow> Inl e
         | Inr parent_id \<Rightarrow>
             if \<not> has_key (relative_path s) parent_id then
               (case (if parent_id \<in> set (module_list s) then get_resource_id depth s parent_id
                      else Inr '''') of
                  Inl e \<Rightarrow> Inl e
                | Inr result \<Rightarrow>
                    (case get_relative_path depth s parent_id of
                       Inl e \<Rightarrow> Inl e
                     | Inr parent_path \<Rightarrow>
                         if result \<noteq> '''' then Inr (parent_path @ ''/'' @ result)
                         else Inr parent_path))
             else dict_get (relative_path s) parent_id)
      else dict_get (relative_path s) item_id)"

section \<open>Dual bay repair (\<^verbatim>\<open>_filter_lower_bay_containers\<close>)\<close>

text \<open>
  Modelled from the spec: \<^verbatim>\<open>QualiMibTable.filter_by_column\<close> and
  \<^verbatim>\<open>sort_by_column\<close> belong to the package \<^verbatim>\<open>cloudshell.snmp\<close>, which is not among the
  sources. Following the spec, the children of a container are the rows whose
  \<^verbatim>\<open>entPhysicalContainedIn\<close> equals the container's id written as a string, the
  containers are the rows of class \<^verbatim>\<open>container\<close>, and "position order" is the ascending
  order of \<^verbatim>\<open>int(entPhysicalParentRelPos)\<close>, rows with equal positions staying in table
  order; a position that is not a number is a \<^verbatim>\<open>ValueError\<close>.
\<close>

definition filter_by_column :: "(entity_row \<Rightarrow> bool) \<Rightarrow> entity_table \<Rightarrow> entity_table" where
  "filter_by_column keep table = filter (\<lambda>(index, row). keep row) table"

fun with_positions :: "entity_table \<Rightarrow> error + (int \<times> int) list" where
  "with_positions [] = Inr []"
| "with_positions ((index, row) # rest) =
     (case py_int (entPhysicalParentRelPos row) of
        None \<Rightarrow> Inl ValueError
      | Some pos \<Rightarrow>
          (case with_positions rest of
             Inl e \<Rightarrow> Inl e
           | Inr ps \<Rightarrow> Inr ((pos, index) # ps)))"

definition sorted_keys :: "entity_table \<Rightarrow> error + int list" where
  "sorted_keys table = map_sum id (\<lambda>ps. map snd (sort_key fst ps)) (with_positions table)"

text \<open>
  The loop over the containers: the last upper bay and the last lower bay seen. The test
  \<^verbatim>\<open>if lower_container and upper_container\<close> of the source fails for \<^verbatim>\<open>None\<close> and
  for the index \<open>0\<close>.
\<close>

fun find_bays :: "snmp \<Rightarrow> int list \<Rightarrow> int option \<times> int option \<Rightarrow> int option \<times> int option" where
  "find_bays sn [] found = found"
| "find_bays sn (container # rest) found =
     (case found of (upper_container, lower_container) \<Rightarrow>
        let vendor_type = vendor_type_property sn container;
            upper' = (if contains (lower vendor_type) ''uppermodulebay'' then Some container
                      else upper_container);
            lower' = (if contains (lower vendor_type) ''lowermodulebay'' then Some container
                      else lower_container)
        in find_bays sn rest (upper', lower'))"

text \<open>\<open>set_row table i f\<close> changes the row \<^verbatim>\<open>table[i]\<close> in place.\<close>

definition set_row :: "entity_table \<Rightarrow> int \<Rightarrow> (entity_row \<Rightarrow> entity_row) \<Rightarrow> entity_table" where
  "set_row table i f = map (\<lambda>(index, row). if index = i then (index, f row) else (index, row)) table"

fun reparent :: "int \<Rightarrow> int \<Rightarrow> int list \<Rightarrow> entity_table \<Rightarrow> error + entity_table" where
  "reparent upper_container child_upper_items_len [] table = Inr table"
| "reparent upper_container child_upper_items_len (child # rest) table =
     (case dict_get table child of
        Inl e \<Rightarrow> Inl e
      | Inr row \<Rightarrow>
          (case py_int (entPhysicalParentRelPos row) of
             None \<Rightarrow> Inl ValueError
           | Some pos \<Rightarrow>
               reparent upper_container child_upper_items_len rest
                 (set_row table child (\<lambda>r. r\<lparr>entPhysicalContainedIn := PyInt upper_container,
                     entPhysicalParentRelPos := py_str (child_upper_items_len + pos)\<rparr>))))"

definition children_of :: "entity_table \<Rightarrow> int \<Rightarrow> error + int list" where
  "children_of table container =
     sorted_keys (filter_by_column
        (\<lambda>row. entPhysicalContainedIn row = PyStr (py_str container)) table)"

definition filter_lower_bay_containers :: "snmp \<Rightarrow> autoload \<Rightarrow> error + autoload" where
  "filter_lower_bay_containers sn s =
     and_then (self_entity_table s) (\<lambda>et.
     and_then (sorted_keys (filter_by_column (\<lambda>row. entPhysicalClass row = ''container'') et))
       (\<lambda>containers.
          case find_bays sn containers (None, None) of
            (Some upper_container, Some lower_container) \<Rightarrow>
              if lower_container \<noteq> 0 \<and> upper_container \<noteq> 0 then
                and_then (children_of et upper_container) (\<lambda>child_upper_items.
                and_then (children_of et lower_container) (\<lambda>child_lower_items.
                and_then (reparent upper_container (int (length child_upper_items))
                            child_lower_items et) (\<lambda>et'.
                  Inr (s\<lparr>entity_table := Some et'\<rparr>))))
              else Inr s
          | _ \<Rightarrow> Inr s))"

section \<open>Modules above the ports (\<^verbatim>\<open>get_module_list\<close>)\<close>

definition module_step :: "snmp \<Rightarrow> autoload \<Rightarrow> int \<Rightarrow> autoload" where
  "module_step sn s module =
     (if module \<in> set (module_list s) then s
      else if \<not> search_any module_exclude_pattern (lower (vendor_type_property sn module)) then
        (if module \<notin> set (exclusion_list s) \<and> module \<notin> set (module_list s)
         then s\<lparr>module_list := module_list s @ [module]\<rparr>
         else s)
      else s\<lparr>excluded_models := excluded_models s @ [module]\<rparr>)"

fun module_loop :: "nat \<Rightarrow> snmp \<Rightarrow> int list \<Rightarrow> autoload \<Rightarrow> error + autoload" where
  "module_loop depth sn [] s = Inr s"
| "module_loop depth sn (port # rest) s =
     (case get_module_parents depth s port of
        Inl e \<Rightarrow> Inl e
      | Inr modules \<Rightarrow> module_loop depth sn rest (foldl (module_step sn) s modules))"

definition get_module_list :: "nat \<Rightarrow> snmp \<Rightarrow> autoload \<Rightarrow> error + autoload" where
  "get_module_list depth sn s = module_loop depth sn (port_list s) s"

section \<open>Addresses (\<^verbatim>\<open>add_relative_paths\<close>, \<^verbatim>\<open>_get_port_relative_path\<close>)\<close>

text \<open>
  \<open>add_offset relative_id\<close> is the first branch of \<^verbatim>\<open>_get_port_relative_path\<close>: the last
  segment plus 1000; a last segment that \<^verbatim>\<open>int\<close> does not read is a \<^verbatim>\<open>ValueError\<close>,
  and \<^verbatim>\<open>split()[-1]\<close> on a blank string an \<^verbatim>\<open>IndexError\<close>.
\<close>

definition add_offset :: "string \<Rightarrow> error + string" where
  "add_offset relative_id =
     (if CHR ''/'' \<in> set relative_id then
        (let ids = split_on CHR ''/'' relative_id in
         case py_int (last ids) of
           None \<Rightarrow> Inl ValueError
         | Some n \<Rightarrow> Inr (join CHR ''/'' (ids[length ids - 1 := py_str (n + 1000)])))
      else
        (case split_ws relative_id of
           [] \<Rightarrow> Inl IndexError
         | w # ws \<Rightarrow>
             (case py_int (last (w # ws)) of
                None \<Rightarrow> Inl ValueError
              | Some n \<Rightarrow> Inr (py_str (n + 1000)))))"

fun get_port_relative_path :: "nat \<Rightarrow> string list \<Rightarrow> string \<Rightarrow> error + string" where
  "get_port_relative_path 0 vals relative_id = Inl RecursionError"
| "get_port_relative_path (Suc depth) vals relative_id =
     (if relative_id \<in> set vals then
        (case add_offset relative_id of
           Inl e \<Rightarrow> Inl e
         | Inr result \<Rightarrow> get_port_relative_path depth vals result)
      else Inr relative_id)"

text \<open>\<open>list_remove x xs\<close> is \<^verbatim>\<open>xs.remove(x)\<close>.\<close>

definition list_remove :: "int \<Rightarrow> int list \<Rightarrow> error + int list" where
  "list_remove x xs = (if x \<in> set xs then Inr (remove1 x xs) else Inl ValueError)"

definition module_path :: "nat \<Rightarrow> autoload \<Rightarrow> int \<Rightarrow> error + autoload" where
  "module_path depth s module =
     (if module \<notin> set (exclusion_list s) then
        and_then (get_relative_path depth s module) (\<lambda>path.
        and_then (get_resource_id depth s module) (\<lambda>resource_id.
          Inr (s\<lparr>relative_path := dict_set module (path @ ''/'' @ resource_id) (relative_path s)\<rparr>)))
      else
        and_then (list_remove module (module_list s)) (\<lambda>ms. Inr (s\<lparr>module_list := ms\<rparr>)))"

definition port_path :: "nat \<Rightarrow> autoload \<Rightarrow> int \<Rightarrow> error + autoload" where
  "port_path depth s port =
     (if port \<notin> set (exclusion_list s) then
        and_then (get_relative_path depth s port) (\<lambda>path.
        and_then (get_resource_id depth s port) (\<lambda>resource_id.
        and_then (get_port_relative_path depth (dict_values (relative_path s))
                    (path @ ''/'' @ resource_id)) (\<lambda>address.
          Inr (s\<lparr>relative_path := dict_set port address (relative_path s)\<rparr>))))
      else
        and_then (list_remove port (port_list s)) (\<lambda>ps. Inr (s\<lparr>port_list := ps\<rparr>)))"

text \<open>\<open>for_each step xs s\<close> is a \<^verbatim>\<open>for\<close> loop over a copy of a list.\<close>

fun for_each :: "(autoload \<Rightarrow> int \<Rightarrow> error + autoload) \<Rightarrow> int list \<Rightarrow> autoload \<Rightarrow> error + autoload" where
  "for_each step [] s = Inr s"
| "for_each step (x # xs) s =
     (case step s x of
        Inl e \<Rightarrow> Inl e
      | Inr s' \<Rightarrow> for_each step xs s')"

definition add_relative_paths :: "nat \<Rightarrow> autoload \<Rightarrow> error + autoload" where
  "add_relative_paths depth s =
     and_then (for_each (module_path depth) (module_list s) s) (\<lambda>s1.
       for_each (port_path depth) (port_list s) s1)"

section \<open>Power ports (\<^verbatim>\<open>_filter_power_port_list\<close>, \<^verbatim>\<open>_get_power_ports\<close>)\<close>

definition power_step :: "autoload \<Rightarrow> int \<Rightarrow> error + autoload" where
  "power_step s power_port =
     and_then (parent_of s power_port) (\<lambda>parent_index.
     and_then (row_of s parent_index) (\<lambda>parent_row.
       if contains (entPhysicalClass parent_row) ''powerSupply''
          \<and> parent_index \<in> set (power_supply_list s)
       then and_then (list_remove power_port (power_supply_list s))
              (\<lambda>ps. Inr (s\<lparr>power_supply_list := ps\<rparr>))
       else Inr s))"

definition filter_power_port_list :: "autoload \<Rightarrow> error + autoload" where
  "filter_power_port_list s = for_each power_step (power_supply_list s) s"

text \<open>
  \<open>index_of x xs\<close> is \<^verbatim>\<open>xs.index(x)\<close> for an \<open>x\<close> of the list. The details of a power
  port are read over SNMP: \<open>power_port_details\<close> gives the attribute names and values of
  an index.
\<close>

fun index_of :: "int \<Rightarrow> int list \<Rightarrow> int" where
  "index_of x [] = 0"
| "index_of x (y # ys) = (if x = y then 0 else 1 + index_of x ys)"

definition power_port :: "nat \<Rightarrow> (int \<Rightarrow> (string \<times> string) list) \<Rightarrow> autoload \<Rightarrow> int \<Rightarrow> error + autoload" where
  "power_port depth power_port_details s port =
     and_then (row_of s port) (\<lambda>row.
     and_then (parent_of s port) (\<lambda>parent_index.
     and_then (row_of s parent_index) (\<lambda>parent_row.
     and_then (to_int (PyStr (entPhysicalParentRelPos parent_row))) (\<lambda>parent_id.
     and_then (get_relative_path depth s parent_index) (\<lambda>chassis_id.
       let address = chassis_id @ ''/PP'' @ py_str parent_id @ ''-'' @ entPhysicalParentRelPos row;
           port_name = ''PP'' @ py_str (index_of port (power_supply_list s))
       in Inr (s\<lparr>resources := resources s @ [(port_name, address)],
                   attributes := attributes s
                      @ map (\<lambda>(n, v). (address, n, v)) (power_port_details port)\<rparr>))))))"

definition get_power_ports :: "nat \<Rightarrow> (int \<Rightarrow> (string \<times> string) list) \<Rightarrow> autoload \<Rightarrow> error + autoload" where
  "get_power_ports depth power_port_details s =
     and_then (filter_power_port_list s) (\<lambda>s1.
       for_each (power_port depth power_port_details) (power_supply_list s1) s1)"

section \<open>The entry point (\<^verbatim>\<open>discover\<close>)\<close>

text \<open>
  What \<^verbatim>\<open>discover\<close> needs beyond the tables above:
  \<^item> \<open>os_match\<close>: the text that the pattern of supported systems finds in
    \<^verbatim>\<open>sysDescr\<close>, \<open>None\<close> when it finds nothing, and \<open>os_names\<close>, the supported systems
    as the error message prints them;
  \<^item> \<open>root_attributes\<close>: the attribute records that \<^verbatim>\<open>_get_device_details\<close> appends;
  \<^item> \<open>power_port_details\<close>: see \<open>power_port\<close>;
  \<^item> \<open>chassis_attributes\<close>, \<open>ports_attributes\<close>, \<open>module_attributes\<close> and
    \<open>port_channels\<close>: the four other collectors of resources and attributes, which
    read further SNMP tables.
\<close>

record device =
  os_match :: "string option"
  os_names :: string
  root_attributes :: "(string \<times> string \<times> string) list"
  power_port_details :: "int \<Rightarrow> (string \<times> string) list"
  chassis_attributes :: "autoload \<Rightarrow> error + autoload"
  ports_attributes :: "autoload \<Rightarrow> error + autoload"
  module_attributes :: "autoload \<Rightarrow> error + autoload"
  port_channels :: "autoload \<Rightarrow> error + autoload"

text \<open>\<open>strip_chars cs s\<close> is \<^verbatim>\<open>s.strip(cs)\<close>.\<close>

definition strip_chars :: "string \<Rightarrow> string \<Rightarrow> string" where
  "strip_chars cs s = rev (dropWhile (\<lambda>c. c \<in> set cs) (rev (dropWhile (\<lambda>c. c \<in> set cs) s)))"

text \<open>
  \<^verbatim>\<open>_is_valid_device_os\<close>: the match is stripped of the characters of the string
  \<^verbatim>\<open>' \s\r\n'\<close> (blank, backslash, \<^verbatim>\<open>s\<close>, carriage return, line feed) and must not be
  empty.
\<close>

definition is_valid_device_os :: "device \<Rightarrow> error + unit" where
  "is_valid_device_os dev =
     (case os_match dev of
        Some found \<Rightarrow>
          if strip_chars [CHR '' '', CHR 0x5C, CHR ''s'', CHR 0x0D, CHR 0x0A] found \<noteq> ''''
          then Inr ()
          else Inl (PyException (''Incompatible driver! Please use this driver for '' @ os_names dev
                                 @ '' operation system(s)''))
      | None \<Rightarrow>
          Inl (PyException (''Incompatible driver! Please use this driver for '' @ os_names dev
                             @ '' operation system(s)'')))"

definition chassis_path :: "nat \<Rightarrow> autoload \<Rightarrow> int \<Rightarrow> error + autoload" where
  "chassis_path depth s chassis =
     (if chassis \<notin> set (exclusion_list s) then
        and_then (get_resource_id depth s chassis) (\<lambda>chassis_id.
          Inr (s\<lparr>relative_path :=
                   dict_set chassis (if chassis_id = ''-1'' then ''0'' else chassis_id)
                     (relative_path s)\<rparr>))
      else Inr s)"

text \<open>
  Lines 71 to 94 of \<^verbatim>\<open>discover\<close>, up to the addresses: \<open>None\<close> is the early return on
  an empty chassis list.
\<close>

definition discover_tree ::
  "nat \<Rightarrow> (entity_table \<Rightarrow> int list) \<Rightarrow> device \<Rightarrow> snmp \<Rightarrow> autoload \<Rightarrow> error + autoload option" where
  "discover_tree depth elements_of dev sn s =
     and_then (is_valid_device_os dev) (\<lambda>_.
     and_then (load_snmp_tables elements_of sn
                 (s\<lparr>attributes := attributes s @ root_attributes dev\<rparr>)) (\<lambda>s1.
       if length (chassis_list s1) < 1 then Inr None
       else
         and_then (for_each (chassis_path depth) (chassis_list s1) s1) (\<lambda>s2.
         and_then (filter_lower_bay_containers sn s2) (\<lambda>s3.
         and_then (get_module_list depth sn s3) (\<lambda>s4.
         and_then (add_relative_paths depth s4) (\<lambda>s5. Inr (Some s5)))))))"


section \<open>Notions used in the properties\<close>

text \<open>
  The addresses that the collision pass of \<^verbatim>\<open>_get_port_relative_path\<close> tries for the
  address \<open>pre/seg\<close> whose last segment reads as the number \<open>n\<close>: the address itself,
  then \<open>pre/(n + 1000)\<close>, \<open>pre/(n + 2000)\<close>, and so on.
\<close>

definition offset_address :: "string \<Rightarrow> string \<Rightarrow> int \<Rightarrow> nat \<Rightarrow> string" where
  "offset_address pre seg n k =
     (if k = 0 then pre @ ''/'' @ seg else pre @ ''/'' @ py_str (n + 1000 * int k))"


text \<open>
  \<open>own_address d p\<close>: the dictionary has an address for \<open>p\<close> that no other key has.
\<close>

definition own_address :: "(int \<times> string) list \<Rightarrow> int \<Rightarrow> bool" where
  "own_address d p = (\<exists>a. map_of d p = Some a \<and> (\<forall>k. k \<noteq> p \<longrightarrow> map_of d k \<noteq> Some a))"


section \<open>Example devices\<close>

text \<open>
  A small switch: a chassis (1), a module (2) with four port rows (3, 4, 6, 7), a row
  without position (5), a fan tray (8) and a power supply (9). Port 4 is a management
  port, ports 3 and 6 have the same position under the module, and port 7 maps to the
  interface that port 3 has claimed.
\<close>

definition sample_entities :: "(int \<times> string \<times> string \<times> string \<times> string \<times> string) list" where
  "sample_entities =
     [(1, ''0'', ''chassis'', ''cevChassisCat3750'', ''Catalyst chassis'', ''Switch 1''),
      (2, ''1'', ''module'', ''cevModuleGeneric'', ''Line card'', ''Module 1''),
      (3, ''2'', ''port'', ''cevPortGigE'', ''GigabitEthernet1/1'', ''Gi1/1''),
      (4, ''2'', ''port'', ''cevPortGigE'', ''Management interface'', ''Mgmt0''),
      (6, ''2'', ''port'', ''cevPortGigE'', ''GigabitEthernet1/2'', ''Gi1/2''),
      (7, ''2'', ''port'', ''cevPortGigE'', ''GigabitEthernet1/1 shadow'', ''Gi1/1b''),
      (8, ''1'', ''other'', ''cevFanTray'', ''Fan tray'', ''Fan 1''),
      (9, ''1'', ''powerSupply'', ''cevPowerSupplyAC'', ''Power supply'', ''PS 1'')]"

definition sample_snmp :: snmp where
  "sample_snmp =
     \<lparr>physical_indexes = [(1, ''-1''), (2, ''1''), (3, ''1''), (4, ''2''), (5, ''''), (6, ''1''),
                          (7, ''3''), (8, ''1''), (9, ''2'')],
      critical_attr = (\<lambda>i. case map_of sample_entities i of
                             Some (parent, cls, vendor, descr, name) \<Rightarrow> (parent, cls, vendor)
                           | None \<Rightarrow> ('''', '''', '''')),
      optional_attr = (\<lambda>i. case map_of sample_entities i of
                             Some (parent, cls, vendor, descr, name) \<Rightarrow> (descr, name)
                           | None \<Rightarrow> ('''', '''')),
      vendor_type_property = (\<lambda>i. case map_of sample_entities i of
                             Some (parent, cls, vendor, descr, name) \<Rightarrow> vendor
                           | None \<Rightarrow> ''''),
      alias_mapping = map_of [(3, ''IF-MIB::ifIndex.101''), (6, ''IF-MIB::ifIndex.102''),
                              (7, ''IF-MIB::ifIndex.101'')],
      if_descr_table = [(101, \<lparr>ifDescr = ''GigabitEthernet1/1'', suffix = ''101''\<rparr>),
                        (102, \<lparr>ifDescr = ''GigabitEthernet1/2'', suffix = ''102''\<rparr>)]\<rparr>"

text \<open>
  Two choices for the list of elements that the table library hands to the exclusion
  propagation: none of the rows, or all of them.
\<close>

definition no_elements :: "entity_table \<Rightarrow> int list" where
  "no_elements table = []"

definition all_elements :: "entity_table \<Rightarrow> int list" where
  "all_elements table = map fst table"

definition sample_device :: device where
  "sample_device =
     \<lparr>os_match = Some ''IOS'', os_names = ''IOS'',
      root_attributes = [('''', ''Vendor'', ''Cisco'')],
      power_port_details = (\<lambda>i. []),
      chassis_attributes = Inr, ports_attributes = Inr, module_attributes = Inr,
      port_channels = Inr\<rparr>"



text \<open>A device whose only row is a module (2) inside an entity (1) that has no row.\<close>

definition orphan_snmp :: snmp where
  "orphan_snmp =
     \<lparr>physical_indexes = [(2, ''1'')],
      critical_attr = (\<lambda>i. (''1'', ''module'', ''cevModuleGeneric'')),
      optional_attr = (\<lambda>i. (''Line card'', ''Module 1'')),
      vendor_type_property = (\<lambda>i. ''cevModuleGeneric''),
      alias_mapping = (\<lambda>i. None),
      if_descr_table = []\<rparr>"

text \<open>
  Three power supply rows nested in each other under a chassis: 10 in the chassis, 11 in
  10, 12 in 11.
\<close>

definition plain_row :: "string \<Rightarrow> string \<Rightarrow> string \<Rightarrow> entity_row" where
  "plain_row pos parent cls =
     \<lparr>entPhysicalParentRelPos = pos, entPhysicalContainedIn = PyStr parent, entPhysicalClass = cls,
      entPhysicalVendorType = '''', entPhysicalDescr = '''', entPhysicalName = ''''\<rparr>"

definition power_chain :: autoload where
  "power_chain = init\<lparr>chassis_list := [1], power_supply_list := [10, 11, 12],
     relative_path := [(1, ''0'')],
     entity_table := Some [(1, plain_row ''-1'' ''0'' ''chassis''),
                           (10, plain_row ''1'' ''1'' ''powerSupply''),
                           (11, plain_row ''1'' ''10'' ''powerSupply''),
                           (12, plain_row ''1'' ''11'' ''powerSupply'')]\<rparr>"

text \<open>
  The state of the sample switch before the addresses of its module and ports are built:
  the chassis has its address, ports 3 and 6 have the same position under module 2.
\<close>

definition two_ports :: autoload where
  "two_ports = init\<lparr>chassis_list := [1], module_list := [2], port_list := [3, 6],
     relative_path := [(1, ''0'')],
     entity_table := Some [(1, plain_row ''-1'' ''0'' ''chassis''),
                           (2, plain_row ''1'' ''1'' ''module''),
                           (3, plain_row ''1'' ''2'' ''port''),
                           (6, plain_row ''1'' ''2'' ''port'')]\<rparr>"

text \<open>
  What a state says about addresses: the nodes that have an address, the excluded nodes,
  and the nodes of the entity table.
\<close>

definition tree_summary :: "autoload \<Rightarrow> int list \<times> int list \<times> int list" where
  "tree_summary s =
     (map fst (relative_path s), exclusion_list s,
      (case entity_table s of None \<Rightarrow> [] | Some et \<Rightarrow> map fst et))"

text \<open>
  \<open>module_above s x m\<close>: the walk of \<^verbatim>\<open>_get_module_parents\<close> from \<open>x\<close> up the parent
  pointers comes to \<open>m\<close>, whose class contains \<^verbatim>\<open>module\<close>; the walk goes on through
  modules and through rows that are neither module nor chassis, and stops at a chassis.
  \<open>module_wanted\<close>: the vendor type does not match the module exclusion pattern and the
  node is not excluded.
\<close>

inductive module_above :: "autoload \<Rightarrow> int \<Rightarrow> int \<Rightarrow> bool" for s :: autoload where
  direct: "parent_of s x = Inr p \<Longrightarrow> 0 < p \<Longrightarrow> row_of s p = Inr parent_row \<Longrightarrow>
           contains (entPhysicalClass parent_row) ''module'' \<Longrightarrow> module_above s x p"
| through: "parent_of s x = Inr p \<Longrightarrow> 0 < p \<Longrightarrow> row_of s p = Inr parent_row \<Longrightarrow>
            contains (entPhysicalClass parent_row) ''module''
              \<or> \<not> contains (entPhysicalClass parent_row) ''chassis'' \<Longrightarrow>
            module_above s p m \<Longrightarrow> module_above s x m"


definition module_wanted :: "snmp \<Rightarrow> autoload \<Rightarrow> int \<Rightarrow> bool" where
  "module_wanted sn s m =
     (\<not> search_any module_exclude_pattern (lower (vendor_type_property sn m))
      \<and> m \<notin> set (exclusion_list s))"


text \<open>The sample switch with its ports found and no module listed yet.\<close>

definition ports_only :: autoload where
  "ports_only = two_ports\<lparr>module_list := []\<rparr>"

text \<open>
  \<open>classified_row sn entry\<close> is the row with which an inventory entry comes to the index
  lists (lines 228 to 243), \<open>None\<close> when the loop leaves the entry before.
  \<open>row_candidate\<close> is the interface that a row asks for: the row is of class
  \<^verbatim>\<open>port\<close>, neither its name nor its description matches the exclusion pattern, and the
  mapping gives an index that is truthy and a key of the interface table.
  \<open>port_candidate\<close> puts the two together.
\<close>

definition classified_row :: "snmp \<Rightarrow> int \<times> string \<Rightarrow> entity_row option" where
  "classified_row sn entry =
     (case entry of (index, rel_pos) \<Rightarrow>
        if rel_pos = '''' then None
        else
          (case critical_attr sn index of (contained_in, cls, vendor_type) \<Rightarrow>
             if contained_in = ''''
                \<or> list_ex (contains (lower vendor_type)) entity_table_black_list then None
             else
               (case optional_attr sn index of (descr, name) \<Rightarrow>
                  (case resolve_class sn index cls of
                     None \<Rightarrow> None
                   | Some cls' \<Rightarrow>
                       Some \<lparr>entPhysicalParentRelPos = rel_pos,
                             entPhysicalContainedIn = PyStr contained_in,
                             entPhysicalClass = cls',
                             entPhysicalVendorType = vendor_type,
                             entPhysicalDescr = descr,
                             entPhysicalName = name\<rparr>))))"

definition row_candidate :: "snmp \<Rightarrow> if_table \<Rightarrow> int \<Rightarrow> entity_row \<Rightarrow> int option" where
  "row_candidate sn ift index row =
     (if entPhysicalClass row = ''port'' \<and> port_name_allowed row then
        (case get_mapping sn ift index (entPhysicalDescr row) of
           Inr (Some pid) \<Rightarrow> if pid \<noteq> 0 \<and> has_key ift pid then Some pid else None
         | _ \<Rightarrow> None)
      else None)"

definition port_candidate :: "snmp \<Rightarrow> if_table \<Rightarrow> int \<times> string \<Rightarrow> int option" where
  "port_candidate sn ift entry =
     (case classified_row sn entry of
        None \<Rightarrow> None
      | Some row \<Rightarrow> row_candidate sn ift (fst entry) row)"

text \<open>
  The entries that claim their interface, in the order of the table: an entry claims when
  it is a candidate and its interface is not among the claimed ones.
\<close>

fun accepted :: "(int \<times> string \<Rightarrow> int option) \<Rightarrow> int set \<Rightarrow> (int \<times> string) list \<Rightarrow> int list" where
  "accepted cand claimed [] = []"
| "accepted cand claimed (entry # rest) =
     (case cand entry of
        None \<Rightarrow> accepted cand claimed rest
      | Some pid \<Rightarrow>
          if pid \<in> claimed then accepted cand claimed rest
          else fst entry # accepted cand (insert pid claimed) rest)"


text \<open>A new instance that has read the interface table of the sample switch.\<close>

definition sample_start :: autoload where
  "sample_start = init\<lparr>if_table := if_descr_table sample_snmp\<rparr>"

text \<open>
  A router with two module bays: a chassis (1), the upper bay (2) and the lower bay (3),
  a module in each bay (4 in the upper, 5 in the lower, both at position 1), and a port
  on each module (6 on module 4, 7 on module 5).
\<close>

definition bay_entities :: "(int \<times> string \<times> string \<times> string \<times> string \<times> string) list" where
  "bay_entities =
     [(1, ''0'', ''chassis'', ''cevChassis7200'', ''Router chassis'', ''Chassis''),
      (2, ''1'', ''container'', ''cevContainerUpperModuleBay'', ''Upper bay'', ''Bay 0''),
      (3, ''1'', ''container'', ''cevContainerLowerModuleBay'', ''Lower bay'', ''Bay 1''),
      (4, ''2'', ''module'', ''cevModuleGeneric'', ''Line card'', ''Module 0''),
      (5, ''3'', ''module'', ''cevModuleGeneric'', ''Line card'', ''Module 1''),
      (6, ''4'', ''port'', ''cevPortGigE'', ''GigabitEthernet0/1'', ''Gi0/1''),
      (7, ''5'', ''port'', ''cevPortGigE'', ''GigabitEthernet1/1'', ''Gi1/1'')]"

definition bay_snmp :: snmp where
  "bay_snmp =
     \<lparr>physical_indexes = [(1, ''-1''), (2, ''1''), (3, ''2''), (4, ''1''), (5, ''1''), (6, ''1''),
                          (7, ''1'')],
      critical_attr = (\<lambda>i. case map_of bay_entities i of
                             Some (parent, cls, vendor, descr, name) \<Rightarrow> (parent, cls, vendor)
                           | None \<Rightarrow> ('''', '''', '''')),
      optional_attr = (\<lambda>i. case map_of bay_entities i of
                             Some (parent, cls, vendor, descr, name) \<Rightarrow> (descr, name)
                           | None \<Rightarrow> ('''', '''')),
      vendor_type_property = (\<lambda>i. case map_of bay_entities i of
                             Some (parent, cls, vendor, descr, name) \<Rightarrow> vendor
                           | None \<Rightarrow> ''''),
      alias_mapping = map_of [(6, ''IF-MIB::ifIndex.101''), (7, ''IF-MIB::ifIndex.102'')],
      if_descr_table = [(101, \<lparr>ifDescr = ''GigabitEthernet0/1'', suffix = ''101''\<rparr>),
                        (102, \<lparr>ifDescr = ''GigabitEthernet1/1'', suffix = ''102''\<rparr>)]\<rparr>"

text \<open>
  The steps of \<^verbatim>\<open>discover\<close> on this router, one after the other: the tables are loaded
  (line 79, the exclusion propagation runs in there), the chassis get their addresses
  (lines 85 to 90), the bays are repaired (line 92).
\<close>

definition tables_loaded :: "error + autoload" where
  "tables_loaded =
     load_snmp_tables no_elements bay_snmp
       (init\<lparr>attributes := attributes init @ root_attributes sample_device\<rparr>)"

definition chassis_addressed :: "error + autoload" where
  "chassis_addressed =
     and_then tables_loaded (\<lambda>s. for_each (chassis_path 50) (chassis_list s) s)"

definition bays_repaired :: "error + autoload" where
  "bays_repaired = and_then chassis_addressed (filter_lower_bay_containers bay_snmp)"

text \<open>
  What a state says about a node: its parent pointer and its position, beside the
  exclusion list and the addresses given so far.
\<close>

definition node_view ::
  "int \<Rightarrow> autoload \<Rightarrow> (pyval \<times> string) option \<times> int list \<times> (int \<times> string) list" where
  "node_view i s =
     (case entity_table s of
        None \<Rightarrow> None
      | Some et \<Rightarrow> map_option (\<lambda>row. (entPhysicalContainedIn row, entPhysicalParentRelPos row))
                     (map_of et i),
      exclusion_list s, relative_path s)"

section \<open>Basic facts about the string functions\<close>

lemma split_on_not_Nil [simp]: "split_on c s \<noteq> []"
  by (induction s) (auto split: list.splits)

lemma and_then_Inr [simp]: "and_then (Inr x) f = f x"
  by (simp add: and_then_def)

lemma and_then_Inl [simp]: "and_then (Inl e) f = Inl e"
  by (simp add: and_then_def)

lemma and_then_eq_Inr: "and_then m f = Inr y \<longleftrightarrow> (\<exists>x. m = Inr x \<and> f x = Inr y)"
  by (cases m) auto

section \<open>Facts about the loops\<close>

subsection \<open>The power supply filter\<close>

lemma count_list_remove1_same: "x \<in> set xs \<Longrightarrow> count_list (remove1 x xs) x = count_list xs x - 1"
  by (induction xs) auto

lemma count_list_remove1_other: "x \<noteq> y \<Longrightarrow> count_list (remove1 x xs) y = count_list xs y"
  by (induction xs) auto

lemma power_step_cases:
  assumes "power_step s pp = Inr s'"
  shows "s' = s \<or> (pp \<in> set (power_supply_list s)
           \<and> s' = s\<lparr>power_supply_list := remove1 pp (power_supply_list s)\<rparr>)"
  using assms
  by (auto simp: power_step_def and_then_eq_Inr list_remove_def split: if_splits)

lemma power_step_removes:
  assumes "power_step s pp = Inr s'" "parent_of s pp = Inr p" "row_of s p = Inr prow"
    "contains (entPhysicalClass prow) ''powerSupply''" "p \<in> set (power_supply_list s)"
  shows "pp \<in> set (power_supply_list s)
     \<and> s' = s\<lparr>power_supply_list := remove1 pp (power_supply_list s)\<rparr>"
  using assms
  by (auto simp: power_step_def and_then_eq_Inr list_remove_def split: if_splits)

lemma parent_of_power_upd [simp]: "parent_of (s\<lparr>power_supply_list := l\<rparr>) i = parent_of s i"
  by (simp add: parent_of_def self_entity_table_def)

lemma row_of_power_upd [simp]: "row_of (s\<lparr>power_supply_list := l\<rparr>) i = row_of s i"
  by (simp add: row_of_def self_entity_table_def)

lemma power_loop_subset:
  "for_each power_step xs s = Inr s' \<Longrightarrow>
     set (power_supply_list s') \<subseteq> set (power_supply_list s)
     \<and> parent_of s' = parent_of s \<and> row_of s' = row_of s \<and> resources s' = resources s"
proof (induction xs arbitrary: s)
  case Nil
  then show ?case by simp
next
  case (Cons x xs)
  then obtain s1 where s1: "power_step s x = Inr s1" and rest: "for_each power_step xs s1 = Inr s'"
    by (auto split: sum.splits)
  from power_step_cases[OF s1] have "set (power_supply_list s1) \<subseteq> set (power_supply_list s)
     \<and> parent_of s1 = parent_of s \<and> row_of s1 = row_of s \<and> resources s1 = resources s"
    by (auto dest: set_remove1_subset[THEN subsetD])
  with Cons.IH[OF rest] show ?case by auto
qed

text \<open>
  An entry whose parent is a power supply that survives the filter is removed once for
  each of its occurrences in the copy of the list.
\<close>

lemma power_loop_count:
  assumes "for_each power_step xs s = Inr s'" "parent_of s pp = Inr p" "row_of s p = Inr prow"
    "contains (entPhysicalClass prow) ''powerSupply''" "p \<in> set (power_supply_list s')"
  shows "count_list (power_supply_list s') pp
           \<le> count_list (power_supply_list s) pp - count_list xs pp"
  using assms
proof (induction xs arbitrary: s)
  case Nil
  then show ?case by simp
next
  case (Cons x xs)
  then obtain s1 where s1: "power_step s x = Inr s1" and rest: "for_each power_step xs s1 = Inr s'"
    by (auto split: sum.splits)
  from power_loop_subset[OF rest]
  have sub: "set (power_supply_list s') \<subseteq> set (power_supply_list s1)" by simp
  from power_step_cases[OF s1] have same: "parent_of s1 = parent_of s" "row_of s1 = row_of s"
    by auto
  have ih: "count_list (power_supply_list s') pp
              \<le> count_list (power_supply_list s1) pp - count_list xs pp"
    using Cons.IH[OF rest] Cons.prems same by simp
  show ?case
  proof (cases "x = pp")
    case True
    have "p \<in> set (power_supply_list s1)" using sub Cons.prems by auto
    then have "p \<in> set (power_supply_list s)"
      using power_step_cases[OF s1] by (auto dest: set_remove1_subset[THEN subsetD])
    from power_step_removes[OF s1[unfolded True] Cons.prems(2,3,4) this]
    have "count_list (power_supply_list s1) pp = count_list (power_supply_list s) pp - 1"
      by (simp add: count_list_remove1_same)
    with ih True show ?thesis by simp
  next
    case False
    then have "count_list (power_supply_list s1) pp = count_list (power_supply_list s) pp"
      using power_step_cases[OF s1] by (auto simp: count_list_remove1_other)
    with ih False show ?thesis by simp
  qed
qed

lemma power_filter:
  assumes "filter_power_port_list s = Inr s'"
  shows "set (power_supply_list s') \<subseteq> set (power_supply_list s)
    \<and> (\<forall>pp \<in> set (power_supply_list s'). \<forall>p prow.
          parent_of s pp = Inr p \<and> row_of s p = Inr prow
          \<and> contains (entPhysicalClass prow) ''powerSupply''
          \<longrightarrow> p \<notin> set (power_supply_list s'))"
proof (intro conjI ballI allI impI)
  show "set (power_supply_list s') \<subseteq> set (power_supply_list s)"
    using power_loop_subset assms unfolding filter_power_port_list_def by blast
next
  fix pp p prow
  assume pp: "pp \<in> set (power_supply_list s')"
    and h: "parent_of s pp = Inr p \<and> row_of s p = Inr prow
            \<and> contains (entPhysicalClass prow) ''powerSupply''"
  show "p \<notin> set (power_supply_list s')"
  proof
    assume "p \<in> set (power_supply_list s')"
    with power_loop_count[OF assms[unfolded filter_power_port_list_def], of pp p prow] h
    have "count_list (power_supply_list s') pp = 0" by simp
    with pp show False by (simp add: count_list_0_iff)
  qed
qed

lemma for_each_power_port_resources:
  "for_each (power_port depth details) xs s = Inr s' \<Longrightarrow>
     length (resources s') = length (resources s) + length xs"
proof (induction xs arbitrary: s)
  case Nil
  then show ?case by simp
next
  case (Cons x xs)
  then obtain s1 where s1: "power_port depth details s x = Inr s1"
    and rest: "for_each (power_port depth details) xs s1 = Inr s'"
    by (auto split: sum.splits)
  from s1 have "length (resources s1) = Suc (length (resources s))"
    by (auto simp: power_port_def and_then_eq_Inr Let_def)
  with Cons.IH[OF rest] show ?case by simp
qed

lemma power_chain_filtered:
  "filter_power_port_list power_chain = Inr (power_chain\<lparr>power_supply_list := [10, 12]\<rparr>)"
  by code_simp

subsection \<open>The loop over the inventory rows\<close>

lemma index_lists_exclusion:
  "index_lists sn index row s = Inr s' \<Longrightarrow> exclusion_list s' = exclusion_list s"
  by (auto simp: index_lists_def and_then_eq_Inr split: if_splits option.splits)

lemma classify_row_exclusion_mono:
  assumes "classify_row sn entry (rd, s) = Inr (rd', s')"
  shows "set (exclusion_list s) \<subseteq> set (exclusion_list s')"
  using assms
  by (cases entry)
     (auto simp: classify_row_def Let_def and_then_eq_Inr
           split: if_splits prod.splits option.splits dest!: index_lists_exclusion)

lemma classify_rows_exclusion_mono:
  "classify_rows sn rows (rd, s) = Inr (rd', s') \<Longrightarrow>
     set (exclusion_list s) \<subseteq> set (exclusion_list s')"
proof (induction rows arbitrary: rd s)
  case Nil
  then show ?case by simp
next
  case (Cons entry rows)
  then obtain rd1 s1 where 1: "classify_row sn entry (rd, s) = Inr (rd1, s1)"
    and 2: "classify_rows sn rows (rd1, s1) = Inr (rd', s')"
    by (auto split: sum.splits)
  from classify_row_exclusion_mono[OF 1] Cons.IH[OF 2] show ?case by blast
qed

lemma classify_row_empty_position:
  "classify_row sn (index, '''') (rd, s)
     = Inr (rd, s\<lparr>exclusion_list := exclusion_list s @ [index]\<rparr>)"
  by (simp add: classify_row_def)

lemma classify_rows_empty_position:
  "classify_rows sn rows (rd, s) = Inr (rd', s') \<Longrightarrow> (index, '''') \<in> set rows \<Longrightarrow>
     index \<in> set (exclusion_list s')"
proof (induction rows arbitrary: rd s)
  case Nil
  then show ?case by simp
next
  case (Cons entry rows)
  then obtain rd1 s1 where 1: "classify_row sn entry (rd, s) = Inr (rd1, s1)"
    and 2: "classify_rows sn rows (rd1, s1) = Inr (rd', s')"
    by (auto split: sum.splits)
  show ?case
  proof (cases "entry = (index, '''')")
    case True
    with 1 have "index \<in> set (exclusion_list s1)" by (auto simp: classify_row_empty_position)
    with classify_rows_exclusion_mono[OF 2] show ?thesis by blast
  next
    case False
    with Cons.prems have "(index, '''') \<in> set rows" by simp
    from Cons.IH[OF 2 this] show ?thesis .
  qed
qed

lemma filter_step_exclusion_mono:
  "filter_step raw element s = Inr s' \<Longrightarrow> set (exclusion_list s) \<subseteq> set (exclusion_list s')"
  by (auto simp: filter_step_def and_then_eq_Inr split: if_splits)

lemma filter_loop_exclusion_mono:
  "filter_loop raw elements s = Inr s' \<Longrightarrow> set (exclusion_list s) \<subseteq> set (exclusion_list s')"
proof (induction elements arbitrary: s)
  case Nil
  then show ?case by simp
next
  case (Cons element elements)
  then obtain s1 where 1: "filter_step raw element s = Inr s1"
    and 2: "filter_loop raw elements s1 = Inr s'"
    by (auto split: sum.splits)
  from filter_step_exclusion_mono[OF 1] Cons.IH[OF 2] show ?case by blast
qed

lemma get_entity_table_parts:
  assumes "get_entity_table elements_of sn s = Inr (rd, s')"
  obtains s1 where "classify_rows sn (physical_indexes sn) ([], s) = Inr (rd, s1)"
    and "filter_entity_table (elements_of rd) rd s1 = Inr s'"
  using assms by (auto simp: get_entity_table_def and_then_eq_Inr)

text \<open>
  On an instance whose \<^verbatim>\<open>entity_table\<close> attribute does not exist yet, the exclusion
  propagation either has nothing to visit or fails on its first element.
\<close>

lemma filter_entity_table_fresh:
  "entity_table s = None \<Longrightarrow>
     filter_entity_table elements raw s = (if elements = [] then Inr s else Inl AttributeError)"
  by (cases "rev elements")
     (auto simp: filter_entity_table_def filter_step_def self_entity_table_def)

subsection \<open>Numbers as strings\<close>

lemma digit_table: "list_all (\<lambda>k. digit_val (digit_char k) = k \<and> is_digit (digit_char k)) [0..<10]"
  by code_simp

lemma digit_val_digit_char: "digit_val (digit_char d) = d mod 10"
proof -
  have "d mod 10 \<in> set [0..<10]" by simp
  with digit_table have "digit_val (digit_char (d mod 10)) = d mod 10"
    unfolding list_all_iff by blast
  then show ?thesis by (simp add: digit_char_def)
qed

lemma is_digit_digit_char: "is_digit (digit_char d)"
proof -
  have "d mod 10 \<in> set [0..<10]" by simp
  with digit_table have "is_digit (digit_char (d mod 10))"
    unfolding list_all_iff by blast
  then show ?thesis by (simp add: digit_char_def)
qed

lemma nat_of_digits_append:
  "nat_of_digits acc (xs @ [c]) = 10 * nat_of_digits acc xs + digit_val c"
  by (induction xs arbitrary: acc) auto

lemma digits_of_not_Nil: "digits_of n \<noteq> []"
  by (subst digits_of.simps) auto

lemma digits_of_all_digits: "list_all is_digit (digits_of n)"
proof (induction n rule: digits_of.induct)
  case (1 n)
  show ?case
    by (subst digits_of.simps) (use 1 in \<open>auto simp: is_digit_digit_char\<close>)
qed

lemma nat_of_digits_digits_of: "nat_of_digits 0 (digits_of n) = n"
proof (induction n rule: digits_of.induct)
  case (1 n)
  show ?case
  proof (cases "n < 10")
    case True
    then show ?thesis
      by (subst digits_of.simps) (simp add: digit_val_digit_char)
  next
    case False
    with 1 have "nat_of_digits 0 (digits_of (n div 10)) = n div 10" by simp
    with False show ?thesis
      by (subst digits_of.simps) (simp add: nat_of_digits_append digit_val_digit_char)
  qed
qed

lemma unsigned_digits_of: "unsigned (digits_of n) = Some (int n)"
  by (simp add: unsigned_def digits_of_not_Nil digits_of_all_digits nat_of_digits_digits_of)

lemma is_digit_not_space: "is_digit c \<Longrightarrow> \<not> is_space c"
  by (auto simp: is_digit_def is_space_def)

lemma is_digit_not_sign: "is_digit c \<Longrightarrow> c \<noteq> CHR ''-'' \<and> c \<noteq> CHR ''+'' \<and> c \<noteq> CHR ''/''"
  by (auto simp: is_digit_def)

lemma strip_id: "s \<noteq> [] \<Longrightarrow> \<not> is_space (hd s) \<Longrightarrow> \<not> is_space (last s) \<Longrightarrow> strip s = s"
proof -
  assume a: "s \<noteq> []" "\<not> is_space (hd s)" "\<not> is_space (last s)"
  then have 1: "dropWhile is_space s = s" by (cases s) auto
  from a have "rev s \<noteq> []" "\<not> is_space (hd (rev s))" by (auto simp: hd_rev)
  then have "dropWhile is_space (rev s) = rev s" by (cases "rev s") auto
  with 1 show ?thesis by (simp add: strip_def)
qed

lemma digits_no_space: "list_all is_digit ds \<Longrightarrow> \<forall>c \<in> set ds. \<not> is_space c"
  by (auto simp: list_all_iff is_digit_not_space)

lemma py_str_char_cases: "c \<in> set (py_str n) \<Longrightarrow> c = CHR 0x2D \<or> is_digit c"
  using digits_of_all_digits[of "nat n"] digits_of_all_digits[of "nat (- n)"]
  by (cases "n < 0") (auto simp: py_str_def list_all_iff)

lemma minus_not_space: "\<not> is_space (CHR 0x2D)"
  by (simp add: is_space_def)

lemma py_str_chars:
  assumes "c \<in> set (py_str n)"
  shows "\<not> is_space c \<and> c \<noteq> CHR ''/''"
proof -
  from py_str_char_cases[OF assms] show ?thesis
  proof
    assume "c = CHR 0x2D"
    then show ?thesis using minus_not_space by simp
  next
    assume "is_digit c"
    then show ?thesis using is_digit_not_space is_digit_not_sign by blast
  qed
qed

lemma py_str_not_Nil: "py_str n \<noteq> []"
  by (simp add: py_str_def digits_of_not_Nil)

lemma strip_py_str: "strip (py_str n) = py_str n"
proof (rule strip_id)
  show "py_str n \<noteq> []" by (rule py_str_not_Nil)
  show "\<not> is_space (hd (py_str n))"
    using py_str_chars[of "hd (py_str n)" n] py_str_not_Nil[of n] by auto
  show "\<not> is_space (last (py_str n))"
    using py_str_chars[of "last (py_str n)" n] py_str_not_Nil[of n] by auto
qed

lemma py_int_py_str: "py_int (py_str n) = Some n"
proof (cases "n < 0")
  case True
  then have p: "py_str n = CHR 0x2D # digits_of (nat (- n))" by (simp add: py_str_def)
  have "strip (py_str n) = py_str n" by (rule strip_py_str)
  then have "py_int (py_str n) = map_option uminus (unsigned (digits_of (nat (- n))))"
    unfolding py_int_def p by simp
  with True show ?thesis by (simp add: unsigned_digits_of)
next
  case False
  obtain c cs where d: "digits_of (nat n) = c # cs"
    using digits_of_not_Nil[of "nat n"] by (cases "digits_of (nat n)") auto
  have "is_digit c" using digits_of_all_digits[of "nat n"] d by simp
  then have ns: "c \<noteq> CHR 0x2D" "c \<noteq> CHR 0x2B" using is_digit_not_sign by auto
  from False have p: "py_str n = c # cs" by (simp add: py_str_def d)
  have "strip (py_str n) = py_str n" by (rule strip_py_str)
  then have "py_int (py_str n) = unsigned (c # cs)"
    unfolding py_int_def p using ns by simp
  also have "\<dots> = Some (int (nat n))" using unsigned_digits_of[of "nat n"] d by simp
  finally show ?thesis using False by simp
qed

subsection \<open>Splitting and joining\<close>

lemma split_on_snoc:
  "c \<notin> set x \<Longrightarrow> split_on c (pre @ c # x) = split_on c pre @ [x]"
proof (induction pre)
  case Nil
  have "split_on c x = [x]" using Nil
    by (induction x) (auto split: list.splits)
  then show ?case by simp
next
  case (Cons a pre)
  then show ?case
    by (cases "split_on c pre") (auto split: list.splits)
qed

lemma join_split_on: "join c (split_on c s) = s"
proof (induction s)
  case Nil
  then show ?case by simp
next
  case (Cons a s)
  show ?case
  proof (cases "a = c")
    case True
    obtain y ys where "split_on c s = y # ys"
      using split_on_not_Nil[of c s] by (cases "split_on c s") auto
    with Cons True show ?thesis by simp
  next
    case False
    obtain y ys where y: "split_on c s = y # ys"
      using split_on_not_Nil[of c s] by (cases "split_on c s") auto
    with Cons have "join c (y # ys) = s" by simp
    then have "join c ((a # y) # ys) = a # s" by (cases ys) auto
    with False y show ?thesis by simp
  qed
qed

lemma join_snoc: "ys \<noteq> [] \<Longrightarrow> join c (ys @ [x]) = join c ys @ c # x"
proof (induction ys rule: join.induct[where ?a0.0 = c])
  case (1 c)
  then show ?case by simp
next
  case (2 c p)
  then show ?case by simp
next
  case (3 c p q ps)
  then show ?case by simp
qed

lemma add_offset_slash:
  assumes "CHR ''/'' \<notin> set seg" "py_int seg = Some n"
  shows "add_offset (pre @ ''/'' @ seg) = Inr (pre @ ''/'' @ py_str (n + 1000))"
proof -
  have sp: "split_on CHR ''/'' (pre @ ''/'' @ seg) = split_on CHR ''/'' pre @ [seg]"
    using split_on_snoc[OF assms(1), of pre] by simp
  have upd: "(split_on CHR ''/'' pre @ [seg])[length (split_on CHR ''/'' pre @ [seg]) - 1 := x]
          = split_on CHR ''/'' pre @ [x]" for x
    by simp
  have "join CHR ''/'' (split_on CHR ''/'' pre @ [x]) = pre @ ''/'' @ x" for x
    using join_snoc[OF split_on_not_Nil, of "CHR ''/''" "CHR ''/''" pre x]
    by (simp add: join_split_on)
  with sp upd assms(2) show ?thesis
    by (simp add: add_offset_def Let_def)
qed

text \<open>The addresses that the collision pass tries, one after the other.\<close>

lemma candidates_distinct:
  assumes "py_int seg = Some n"
  shows "pre @ ''/'' @ seg \<noteq> pre @ ''/'' @ py_str (n + 1000 * int (Suc j))"
    and "pre @ ''/'' @ py_str (n + 1000 * int i) = pre @ ''/'' @ py_str (n + 1000 * int j) \<Longrightarrow> i = j"
proof -
  show "pre @ ''/'' @ seg \<noteq> pre @ ''/'' @ py_str (n + 1000 * int (Suc j))"
  proof
    assume "pre @ ''/'' @ seg = pre @ ''/'' @ py_str (n + 1000 * int (Suc j))"
    then have "py_int seg = py_int (py_str (n + 1000 * int (Suc j)))" by simp
    with assms show False by (simp add: py_int_py_str)
  qed
  assume "pre @ ''/'' @ py_str (n + 1000 * int i) = pre @ ''/'' @ py_str (n + 1000 * int j)"
  then have "py_int (py_str (n + 1000 * int i)) = py_int (py_str (n + 1000 * int j))" by simp
  then show "i = j" by (simp add: py_int_py_str)
qed

subsection \<open>The collision pass\<close>

lemma add_offset_offset_address:
  assumes "CHR ''/'' \<notin> set seg" "py_int seg = Some n"
  shows "add_offset (offset_address pre seg n k) = Inr (offset_address pre seg n (Suc k))"
proof (cases "k = 0")
  case True
  with add_offset_slash[OF assms, of pre] show ?thesis
    by (simp add: offset_address_def)
next
  case False
  have "CHR ''/'' \<notin> set (py_str (n + 1000 * int k))"
    using py_str_chars by blast
  from add_offset_slash[OF this py_int_py_str, of pre] False show ?thesis
    by (simp add: offset_address_def algebra_simps)
qed

lemma offset_address_inj:
  assumes "py_int seg = Some n"
  shows "inj (offset_address pre seg n)"
proof (rule injI)
  fix i j
  assume e: "offset_address pre seg n i = offset_address pre seg n j"
  show "i = j"
  proof (cases "i = 0"; cases "j = 0")
    assume "i = 0" "j = 0"
    then show ?thesis by simp
  next
    assume "i = 0" "j \<noteq> 0"
    then obtain j' where "j = Suc j'" by (cases j) auto
    with e \<open>i = 0\<close> candidates_distinct(1)[OF assms, of pre j'] show ?thesis
      by (simp add: offset_address_def)
  next
    assume "i \<noteq> 0" "j = 0"
    then obtain i' where "i = Suc i'" by (cases i) auto
    with e \<open>j = 0\<close> candidates_distinct(1)[OF assms, of pre i'] show ?thesis
      by (simp add: offset_address_def)
  next
    assume "i \<noteq> 0" "j \<noteq> 0"
    with e candidates_distinct(2)[OF assms, of pre i j] show ?thesis
      by (simp add: offset_address_def)
  qed
qed

lemma collision_run:
  assumes "CHR ''/'' \<notin> set seg" "py_int seg = Some n"
  shows "(\<forall>j. i \<le> j \<and> j < i + m \<longrightarrow> offset_address pre seg n j \<in> set vals) \<Longrightarrow>
         offset_address pre seg n (i + m) \<notin> set vals \<Longrightarrow>
         get_port_relative_path (Suc (m + d)) vals (offset_address pre seg n i)
           = Inr (offset_address pre seg n (i + m))"
proof (induction m arbitrary: i)
  case 0
  then show ?case by simp
next
  case (Suc m)
  have here: "offset_address pre seg n i \<in> set vals" using Suc.prems(1) by simp
  have "get_port_relative_path (Suc (m + d)) vals (offset_address pre seg n (Suc i))
          = Inr (offset_address pre seg n (Suc i + m))"
    using Suc.prems by (intro Suc.IH) auto
  with here add_offset_offset_address[OF assms, of pre i] show ?case by simp
qed

lemma free_candidate:
  assumes "py_int seg = Some n"
  shows "\<exists>k \<le> length vals. offset_address pre seg n k \<notin> set vals"
proof (rule ccontr)
  assume "\<not> ?thesis"
  then have "offset_address pre seg n ` {..length vals} \<subseteq> set vals" by auto
  then have "card (offset_address pre seg n ` {..length vals}) \<le> card (set vals)"
    by (intro card_mono) auto
  moreover have "card (offset_address pre seg n ` {..length vals}) = Suc (length vals)"
    using offset_address_inj[OF assms, of pre]
    by (subst card_image) (auto intro: inj_on_subset)
  moreover have "card (set vals) \<le> length vals" by (rule card_length)
  ultimately show False by simp
qed


subsection \<open>The relative path dictionary\<close>

lemma map_of_dict_set: "map_of (dict_set k v d) = (map_of d)(k \<mapsto> v)"
  by (induction d) (auto simp: fun_eq_iff)

lemma map_fst_dict_set:
  "map fst (dict_set k v d) = (if k \<in> set (map fst d) then map fst d else map fst d @ [k])"
  by (induction d) force+

lemma keys_dict_set: "set (map fst (dict_set k v d)) = insert k (set (map fst d))"
  by (simp add: map_fst_dict_set insert_absorb)

lemma distinct_dict_set: "distinct (map fst d) \<Longrightarrow> distinct (map fst (dict_set k v d))"
  by (simp add: map_fst_dict_set)

lemma map_of_in_values: "map_of d k = Some v \<Longrightarrow> v \<in> set (dict_values d)"
  by (auto simp: dict_values_def dest: map_of_SomeD intro: rev_image_eqI)

lemma one_entry:
  "distinct (map fst d) \<Longrightarrow> map_of d x = Some a \<Longrightarrow> length (filter (\<lambda>e. fst e = x) d) = 1"
proof (induction d)
  case Nil
  then show ?case by simp
next
  case (Cons e d)
  obtain k v where e: "e = (k, v)" by (cases e)
  show ?case
  proof (cases "k = x")
    case True
    with Cons.prems e have "x \<notin> fst ` set d" by auto
    then have "filter (\<lambda>e. fst e = x) d = []" by (auto simp: filter_empty_conv)
    with True e show ?thesis by simp
  next
    case False
    with Cons e show ?thesis by auto
  qed
qed

lemma get_port_relative_path_fresh:
  "get_port_relative_path depth vals relative_id = Inr r \<Longrightarrow> r \<notin> set vals"
proof (induction depth arbitrary: relative_id)
  case 0
  then show ?case by simp
next
  case (Suc depth)
  then show ?case by (auto split: if_splits sum.splits)
qed

lemma port_path_cases:
  assumes "port_path depth s port = Inr s'"
  shows "exclusion_list s' = exclusion_list s \<and>
    (if port \<in> set (exclusion_list s) then relative_path s' = relative_path s
     else \<exists>a. a \<notin> set (dict_values (relative_path s))
            \<and> relative_path s' = dict_set port a (relative_path s))"
  using assms
  by (auto simp: port_path_def and_then_eq_Inr list_remove_def
           dest: get_port_relative_path_fresh split: if_splits)

lemma module_path_cases:
  assumes "module_path depth s module = Inr s'"
  shows "exclusion_list s' = exclusion_list s \<and> port_list s' = port_list s \<and>
    (if module \<in> set (exclusion_list s) then relative_path s' = relative_path s
     else \<exists>a. relative_path s' = dict_set module a (relative_path s))"
  using assms
  by (auto simp: module_path_def and_then_eq_Inr list_remove_def split: if_splits)

lemma own_address_new:
  "a \<notin> set (dict_values d) \<Longrightarrow> own_address (dict_set p a d) p"
  by (auto simp: own_address_def map_of_dict_set dest: map_of_in_values)

lemma own_address_kept:
  "a \<notin> set (dict_values d) \<Longrightarrow> own_address d q \<Longrightarrow> own_address (dict_set p a d) q"
  by (cases "p = q") (auto simp: own_address_def map_of_dict_set dest: map_of_in_values)

lemma port_loop_addresses:
  "for_each (port_path depth) xs s = Inr s' \<Longrightarrow>
   \<forall>p \<in> P. own_address (relative_path s) p \<Longrightarrow>
     exclusion_list s' = exclusion_list s
     \<and> (\<forall>p \<in> P \<union> (set xs - set (exclusion_list s)). own_address (relative_path s') p)
     \<and> (\<forall>k. map_of (relative_path s) k \<noteq> None \<longrightarrow> map_of (relative_path s') k \<noteq> None)
     \<and> (distinct (map fst (relative_path s)) \<longrightarrow> distinct (map fst (relative_path s')))"
proof (induction xs arbitrary: s P)
  case Nil
  then show ?case by simp
next
  case (Cons x xs)
  then obtain s1 where s1: "port_path depth s x = Inr s1"
    and rest: "for_each (port_path depth) xs s1 = Inr s'"
    by (auto split: sum.splits)
  note c = port_path_cases[OF s1]
  show ?case
  proof (cases "x \<in> set (exclusion_list s)")
    case True
    with c have same: "relative_path s1 = relative_path s" "exclusion_list s1 = exclusion_list s"
      by auto
    from Cons.IH[OF rest, of P] Cons.prems(2) same True show ?thesis by auto
  next
    case False
    with c obtain a where a: "a \<notin> set (dict_values (relative_path s))"
      "relative_path s1 = dict_set x a (relative_path s)"
      and ex: "exclusion_list s1 = exclusion_list s"
      by auto
    have inv: "\<forall>p \<in> insert x P. own_address (relative_path s1) p"
      using a Cons.prems(2) own_address_new own_address_kept by auto
    from Cons.IH[OF rest inv] ex a(2) show ?thesis
      by (auto simp: map_of_dict_set distinct_dict_set)
  qed
qed

lemma module_loop_addresses:
  "for_each (module_path depth) xs s = Inr s' \<Longrightarrow>
     exclusion_list s' = exclusion_list s \<and> port_list s' = port_list s
     \<and> (\<forall>m \<in> set xs - set (exclusion_list s). map_of (relative_path s') m \<noteq> None)
     \<and> (\<forall>k. map_of (relative_path s) k \<noteq> None \<longrightarrow> map_of (relative_path s') k \<noteq> None)
     \<and> (distinct (map fst (relative_path s)) \<longrightarrow> distinct (map fst (relative_path s')))"
proof (induction xs arbitrary: s)
  case Nil
  then show ?case by simp
next
  case (Cons x xs)
  then obtain s1 where s1: "module_path depth s x = Inr s1"
    and rest: "for_each (module_path depth) xs s1 = Inr s'"
    by (auto split: sum.splits)
  note c = module_path_cases[OF s1]
  show ?case
  proof (cases "x \<in> set (exclusion_list s)")
    case True
    with c Cons.IH[OF rest] show ?thesis by auto
  next
    case False
    with c obtain a where a: "relative_path s1 = dict_set x a (relative_path s)"
      and ex: "exclusion_list s1 = exclusion_list s" "port_list s1 = port_list s"
      by auto
    from Cons.IH[OF rest] ex a show ?thesis
      by (auto simp: map_of_dict_set distinct_dict_set)
  qed
qed


subsection \<open>The modules above the ports\<close>

lemma get_module_parents_above:
  "get_module_parents depth s x = Inr ms \<Longrightarrow> m \<in> set ms \<Longrightarrow> module_above s x m"
proof (induction depth arbitrary: x ms)
  case 0
  then show ?case by simp
next
  case (Suc depth)
  from Suc.prems(1) obtain p where p: "parent_of s x = Inr p"
    by (auto split: sum.splits)
  show ?case
  proof (cases "p > 0 \<and> in_entity_table s p")
    case False
    with Suc.prems p show ?thesis by auto
  next
    case True
    with Suc.prems(1) p obtain parent_row where r: "row_of s p = Inr parent_row"
      by (auto split: sum.splits)
    show ?thesis
    proof (cases "contains (entPhysicalClass parent_row) ''module''")
      case m: True
      with Suc.prems(1) p r True obtain rest where
        rest: "get_module_parents depth s p = Inr rest" and ms: "ms = p # rest"
        by (auto split: sum.splits)
      show ?thesis
      proof (cases "m = p")
        case True
        with p r m \<open>p > 0 \<and> in_entity_table s p\<close> show ?thesis
          by (auto intro: module_above.direct)
      next
        case False
        with Suc.prems(2) ms have "m \<in> set rest" by simp
        from Suc.IH[OF rest this] p r m True show ?thesis
          by (auto intro: module_above.through)
      qed
    next
      case nm: False
      show ?thesis
      proof (cases "contains (entPhysicalClass parent_row) ''chassis''")
        case True
        with Suc.prems p r nm \<open>p > 0 \<and> in_entity_table s p\<close> show ?thesis by auto
      next
        case False
        with Suc.prems(1) p r nm \<open>p > 0 \<and> in_entity_table s p\<close>
        have "get_module_parents depth s p = Inr ms" by auto
        from Suc.IH[OF this Suc.prems(2)] p r False \<open>p > 0 \<and> in_entity_table s p\<close>
        show ?thesis by (auto intro: module_above.through)
      qed
    qed
  qed
qed

lemma module_above_same_table:
  assumes "module_above s1 x m" "entity_table s1 = entity_table s"
  shows "module_above s x m"
  using assms
proof (induction rule: module_above.induct)
  case (direct x p parent_row)
  then have "parent_of s x = Inr p" "row_of s p = Inr parent_row"
    by (simp_all add: parent_of_def row_of_def self_entity_table_def)
  with direct show ?case by (auto intro: module_above.direct)
next
  case (through x p parent_row m)
  then have "parent_of s x = Inr p" "row_of s p = Inr parent_row"
    by (simp_all add: parent_of_def row_of_def self_entity_table_def)
  with through show ?case by (auto intro: module_above.through)
qed

lemma module_step_fields:
  "entity_table (module_step sn s m) = entity_table s
   \<and> exclusion_list (module_step sn s m) = exclusion_list s
   \<and> port_list (module_step sn s m) = port_list s
   \<and> relative_path (module_step sn s m) = relative_path s"
  by (simp add: module_step_def)

lemma module_step_list:
  "x \<in> set (module_list (module_step sn s m)) \<Longrightarrow>
     x \<in> set (module_list s) \<or> (x = m \<and> module_wanted sn s m)"
  by (auto simp: module_step_def module_wanted_def split: if_splits)

lemma foldl_module_step:
  "entity_table (foldl (module_step sn) s ms) = entity_table s
   \<and> exclusion_list (foldl (module_step sn) s ms) = exclusion_list s
   \<and> port_list (foldl (module_step sn) s ms) = port_list s
   \<and> relative_path (foldl (module_step sn) s ms) = relative_path s
   \<and> (\<forall>x \<in> set (module_list (foldl (module_step sn) s ms)).
         x \<in> set (module_list s) \<or> (x \<in> set ms \<and> module_wanted sn s x))"
proof (induction ms arbitrary: s)
  case Nil
  then show ?case by simp
next
  case (Cons m ms)
  have w: "module_wanted sn (module_step sn s m) = module_wanted sn s"
    by (simp add: module_wanted_def module_step_fields fun_eq_iff)
  from Cons[of "module_step sn s m"] module_step_fields[of sn s m] w
  show ?case
    by (auto dest: module_step_list)
qed

lemma module_loop_above:
  "module_loop depth sn ports s = Inr s' \<Longrightarrow>
     entity_table s' = entity_table s \<and> exclusion_list s' = exclusion_list s
     \<and> port_list s' = port_list s \<and> relative_path s' = relative_path s
     \<and> (\<forall>x \<in> set (module_list s').
           x \<in> set (module_list s)
           \<or> ((\<exists>port \<in> set ports. module_above s port x) \<and> module_wanted sn s x))"
proof (induction ports arbitrary: s)
  case Nil
  then show ?case by simp
next
  case (Cons port ports)
  then obtain ms where ms: "get_module_parents depth s port = Inr ms"
    and rest: "module_loop depth sn ports (foldl (module_step sn) s ms) = Inr s'"
    by (auto split: sum.splits)
  let ?s1 = "foldl (module_step sn) s ms"
  note f = foldl_module_step[of sn s ms]
  note ih = Cons.IH[OF rest]
  have w: "module_wanted sn ?s1 = module_wanted sn s"
    using f by (simp add: module_wanted_def fun_eq_iff)
  have "x \<in> set (module_list s)
           \<or> ((\<exists>port \<in> set (port # ports). module_above s port x) \<and> module_wanted sn s x)"
    if x: "x \<in> set (module_list s')" for x
  proof -
    from ih x have "x \<in> set (module_list ?s1)
        \<or> ((\<exists>p \<in> set ports. module_above ?s1 p x) \<and> module_wanted sn ?s1 x)" by blast
    then show ?thesis
    proof
      assume "x \<in> set (module_list ?s1)"
      with f have "x \<in> set (module_list s) \<or> (x \<in> set ms \<and> module_wanted sn s x)" by blast
      then show ?thesis using get_module_parents_above[OF ms] by auto
    next
      assume a: "(\<exists>p \<in> set ports. module_above ?s1 p x) \<and> module_wanted sn ?s1 x"
      then obtain p where "p \<in> set ports" "module_above ?s1 p x" by blast
      with f have "module_above s p x" by (auto intro: module_above_same_table)
      with \<open>p \<in> set ports\<close> a w show ?thesis by auto
    qed
  qed
  with ih f show ?case by auto
qed

lemma keys_dict_set_image: "fst ` set (dict_set k v d) = insert k (fst ` set d)"
  using keys_dict_set[of k v d] by simp

lemma module_path_keys:
  assumes "module_path depth s module = Inr s'"
  shows "set (module_list s') \<subseteq> set (module_list s)
     \<and> fst ` set (relative_path s') \<subseteq> insert module (fst ` set (relative_path s))"
proof (cases "module \<in> set (exclusion_list s)")
  case True
  with assms obtain ms where "list_remove module (module_list s) = Inr ms"
    and "s' = s\<lparr>module_list := ms\<rparr>"
    by (auto simp: module_path_def and_then_eq_Inr)
  then show ?thesis
    using set_remove1_subset[of module "module_list s"]
    by (auto simp: list_remove_def split: if_splits)
next
  case False
  with assms obtain a where "s' = s\<lparr>relative_path := dict_set module a (relative_path s)\<rparr>"
    by (auto simp: module_path_def and_then_eq_Inr)
  then show ?thesis by (simp add: keys_dict_set_image)
qed

lemma port_path_keys:
  assumes "port_path depth s port = Inr s'"
  shows "module_list s' = module_list s
     \<and> fst ` set (relative_path s') \<subseteq> insert port (fst ` set (relative_path s))"
proof (cases "port \<in> set (exclusion_list s)")
  case True
  with assms obtain ps where "s' = s\<lparr>port_list := ps\<rparr>"
    by (auto simp: port_path_def and_then_eq_Inr)
  then show ?thesis by auto
next
  case False
  with assms obtain a where "s' = s\<lparr>relative_path := dict_set port a (relative_path s)\<rparr>"
    by (auto simp: port_path_def and_then_eq_Inr)
  then show ?thesis by (simp add: keys_dict_set_image)
qed

lemma module_paths_keys:
  "for_each (module_path depth) xs s = Inr s' \<Longrightarrow>
     set (module_list s') \<subseteq> set (module_list s)
     \<and> fst ` set (relative_path s') \<subseteq> set xs \<union> fst ` set (relative_path s)"
proof (induction xs arbitrary: s)
  case Nil
  then show ?case by simp
next
  case (Cons x xs)
  then obtain s1 where s1: "module_path depth s x = Inr s1"
    and rest: "for_each (module_path depth) xs s1 = Inr s'"
    by (auto split: sum.splits)
  from module_path_keys[OF s1] Cons.IH[OF rest] show ?case by (simp only: set_simps) blast
qed

lemma port_paths_keys:
  "for_each (port_path depth) xs s = Inr s' \<Longrightarrow>
     module_list s' = module_list s
     \<and> fst ` set (relative_path s') \<subseteq> set xs \<union> fst ` set (relative_path s)"
proof (induction xs arbitrary: s)
  case Nil
  then show ?case by simp
next
  case (Cons x xs)
  then obtain s1 where s1: "port_path depth s x = Inr s1"
    and rest: "for_each (port_path depth) xs s1 = Inr s'"
    by (auto split: sum.splits)
  from port_path_keys[OF s1] Cons.IH[OF rest] show ?case by (simp only: set_simps) blast
qed


subsection \<open>Ports and their interfaces\<close>

lemma accepted_iff:
  "x \<in> set (accepted cand V rows) \<longleftrightarrow>
     (\<exists>pre e post pid. rows = pre @ e # post \<and> fst e = x \<and> cand e = Some pid \<and> pid \<notin> V
        \<and> (\<forall>e' \<in> set pre. cand e' \<noteq> Some pid))"
proof (induction rows arbitrary: V)
  case Nil
  then show ?case by simp
next
  case (Cons e0 rows)
  let ?V' = "case cand e0 of None \<Rightarrow> V | Some p \<Rightarrow> insert p V"
  have rest_eq: "x \<in> set (accepted cand ?V' rows) \<longleftrightarrow>
     (\<exists>pre e post pid. e0 # rows = (e0 # pre) @ e # post \<and> fst e = x \<and> cand e = Some pid
        \<and> pid \<notin> V \<and> (\<forall>e' \<in> set (e0 # pre). cand e' \<noteq> Some pid))"
    unfolding Cons.IH by (cases "cand e0") auto
  have head_eq: "(\<exists>pid. fst e0 = x \<and> cand e0 = Some pid \<and> pid \<notin> V) \<longleftrightarrow>
     (\<exists>e post pid. e0 # rows = [] @ e # post \<and> fst e = x \<and> cand e = Some pid \<and> pid \<notin> V
        \<and> (\<forall>e' \<in> set []. cand e' \<noteq> Some pid))"
    by auto
  have split: "(\<exists>pre e post pid. e0 # rows = pre @ e # post \<and> P pre e post pid) \<longleftrightarrow>
     (\<exists>e post pid. e0 # rows = [] @ e # post \<and> P [] e post pid)
     \<or> (\<exists>pre e post pid. e0 # rows = (e0 # pre) @ e # post \<and> P (e0 # pre) e post pid)" for P
  proof
    assume "\<exists>pre e post pid. e0 # rows = pre @ e # post \<and> P pre e post pid"
    then obtain pre e post pid where d: "e0 # rows = pre @ e # post" "P pre e post pid" by blast
    show "(\<exists>e post pid. e0 # rows = [] @ e # post \<and> P [] e post pid)
     \<or> (\<exists>pre e post pid. e0 # rows = (e0 # pre) @ e # post \<and> P (e0 # pre) e post pid)"
    proof (cases pre)
      case Nil
      with d show ?thesis by auto
    next
      case (Cons a pre')
      with d have "a = e0" by simp
      with d Cons show ?thesis by blast
    qed
  next
    assume "(\<exists>e post pid. e0 # rows = [] @ e # post \<and> P [] e post pid)
     \<or> (\<exists>pre e post pid. e0 # rows = (e0 # pre) @ e # post \<and> P (e0 # pre) e post pid)"
    then show "\<exists>pre e post pid. e0 # rows = pre @ e # post \<and> P pre e post pid" by blast
  qed
  have acc: "x \<in> set (accepted cand V (e0 # rows)) \<longleftrightarrow>
      (\<exists>pid. fst e0 = x \<and> cand e0 = Some pid \<and> pid \<notin> V) \<or> x \<in> set (accepted cand ?V' rows)"
  proof (cases "cand e0")
    case None
    then show ?thesis by simp
  next
    case (Some p)
    show ?thesis
    proof (cases "p \<in> V")
      case True
      with Some show ?thesis by (simp add: insert_absorb)
    next
      case False
      with Some show ?thesis by auto
    qed
  qed
  have s: "(\<exists>pre e post pid. e0 # rows = pre @ e # post \<and> fst e = x \<and> cand e = Some pid
        \<and> pid \<notin> V \<and> (\<forall>e' \<in> set pre. cand e' \<noteq> Some pid)) \<longleftrightarrow>
     (\<exists>e post pid. e0 # rows = [] @ e # post \<and> fst e = x \<and> cand e = Some pid \<and> pid \<notin> V
        \<and> (\<forall>e' \<in> set []. cand e' \<noteq> Some pid))
     \<or> (\<exists>pre e post pid. e0 # rows = (e0 # pre) @ e # post \<and> fst e = x \<and> cand e = Some pid
        \<and> pid \<notin> V \<and> (\<forall>e' \<in> set (e0 # pre). cand e' \<noteq> Some pid))"
    by (rule split[of "\<lambda>pre e post pid. fst e = x \<and> cand e = Some pid \<and> pid \<notin> V
          \<and> (\<forall>e' \<in> set pre. cand e' \<noteq> Some pid)"])
  show ?case
    unfolding acc s rest_eq head_eq ..
qed

lemma unique_position:
  "distinct (map fst (pre @ e # post)) \<Longrightarrow> pre @ e # post = pre2 @ e2 # post2 \<Longrightarrow>
   fst e = fst e2 \<Longrightarrow> pre = pre2 \<and> e = e2"
proof (induction pre arbitrary: pre2)
  case Nil
  show ?case
  proof (cases pre2)
    case Nil
    with Nil.prems show ?thesis by simp
  next
    case (Cons a pre2')
    with Nil.prems have "e = a" "post = pre2' @ e2 # post2" by simp_all
    with Nil.prems(1,3) show ?thesis by force
  qed
next
  case (Cons a pre)
  show ?case
  proof (cases pre2)
    case Nil
    with Cons.prems have "a = e2" by simp
    with Cons.prems(1,3) show ?thesis by force
  next
    case (Cons b pre2')
    with Cons.prems(2) have eq: "pre @ e # post = pre2' @ e2 # post2" by simp
    from Cons.prems(1) have d: "distinct (map fst (pre @ e # post))" by simp
    from Cons.IH[OF d eq Cons.prems(3)] Cons.prems(2) Cons show ?thesis by simp
  qed
qed

lemma index_lists_ports:
  assumes "index_lists sn index row s = Inr s'"
  shows "if_table s' = if_table s \<and>
    (case row_candidate sn (if_table s) index row of
       None \<Rightarrow> port_mapping s' = port_mapping s \<and> port_list s' = port_list s
     | Some pid \<Rightarrow>
         if pid \<in> set (dict_values (port_mapping s))
         then port_mapping s' = port_mapping s \<and> port_list s' = port_list s
         else port_mapping s' = dict_set index pid (port_mapping s)
              \<and> port_list s' = port_list s @ [index])"
proof (cases "entPhysicalClass row = ''port'' \<and> port_name_allowed row")
  case False
  with assms show ?thesis
    by (auto simp: index_lists_def row_candidate_def split: if_splits)
next
  case True
  show ?thesis
  proof (cases "get_mapping sn (if_table s) index (entPhysicalDescr row)")
    case (Inl e)
    with assms True show ?thesis by (simp add: index_lists_def)
  next
    case (Inr port_id)
    show ?thesis
    proof (cases port_id)
      case None
      with assms True Inr show ?thesis
        by (simp add: index_lists_def row_candidate_def)
    next
      case (Some pid)
      with assms True Inr show ?thesis
        by (auto simp: index_lists_def row_candidate_def split: if_splits)
    qed
  qed
qed

lemma classify_row_ports:
  assumes "classify_row sn entry (rd, s) = Inr (rd', s')"
  shows "if_table s' = if_table s \<and>
    (case port_candidate sn (if_table s) entry of
       None \<Rightarrow> port_mapping s' = port_mapping s \<and> port_list s' = port_list s
     | Some pid \<Rightarrow>
         if pid \<in> set (dict_values (port_mapping s))
         then port_mapping s' = port_mapping s \<and> port_list s' = port_list s
         else port_mapping s' = dict_set (fst entry) pid (port_mapping s)
              \<and> port_list s' = port_list s @ [fst entry])"
proof (cases "classified_row sn entry")
  case None
  with assms show ?thesis
    by (cases entry)
       (auto simp: classify_row_def classified_row_def port_candidate_def Let_def
             split: if_splits prod.splits option.splits)
next
  case (Some row)
  obtain index rel_pos where e: "entry = (index, rel_pos)" by (cases entry)
  from Some e assms obtain s1 where
    i: "index_lists sn index row s1 = Inr s'"
    and s1: "s1 = s \<or> s1 = s\<lparr>exclusion_list := exclusion_list s @ [index]\<rparr>"
    by (auto simp: classify_row_def classified_row_def Let_def and_then_eq_Inr
             split: if_splits prod.splits option.splits)
  from s1 have same: "if_table s1 = if_table s" "port_mapping s1 = port_mapping s"
    "port_list s1 = port_list s" by auto
  from index_lists_ports[OF i] Some show ?thesis
    unfolding same e by (auto simp: port_candidate_def split: option.splits)
qed

lemma map_snd_dict_set_fresh:
  "k \<notin> fst ` set d \<Longrightarrow> map snd (dict_set k v d) = map snd d @ [v]"
  by (induction d) auto

lemma values_dict_set_fresh:
  "k \<notin> fst ` set d \<Longrightarrow> set (dict_values (dict_set k v d)) = insert v (set (dict_values d))"
  by (simp add: dict_values_def map_snd_dict_set_fresh)

lemma distinct_values_dict_set:
  "distinct (map snd d) \<Longrightarrow> v \<notin> snd ` set d \<Longrightarrow> k \<notin> fst ` set d \<Longrightarrow>
     distinct (map snd (dict_set k v d))"
  by (simp add: map_snd_dict_set_fresh)

lemma distinct_values_inj:
  "distinct (map snd d) \<Longrightarrow> map_of d a = Some v \<Longrightarrow> map_of d b = Some v \<Longrightarrow> a = b"
proof (induction d)
  case Nil
  then show ?case by simp
next
  case (Cons e d)
  obtain k w where e: "e = (k, w)" by (cases e)
  from Cons.prems e have nw: "w \<notin> snd ` set d" and dd: "distinct (map snd d)" by auto
  have no: "map_of d x \<noteq> Some w" for x
    using nw by (auto dest: map_of_SomeD intro: rev_image_eqI)
  show ?case
  proof (cases "a = k"; cases "b = k")
    assume "a = k" "b = k"
    then show ?thesis by simp
  next
    assume "a = k" "b \<noteq> k"
    with Cons.prems e no[of b] show ?thesis by auto
  next
    assume "a \<noteq> k" "b = k"
    with Cons.prems e no[of a] show ?thesis by auto
  next
    assume "a \<noteq> k" "b \<noteq> k"
    with Cons.prems e Cons.IH[OF dd] show ?thesis by auto
  qed
qed

lemma classify_rows_ports:
  "classify_rows sn rows (rd, s) = Inr (rd', s') \<Longrightarrow>
   distinct (map fst rows) \<Longrightarrow>
   fst ` set rows \<inter> fst ` set (port_mapping s) = {} \<Longrightarrow>
   distinct (map snd (port_mapping s)) \<Longrightarrow>
     if_table s' = if_table s
     \<and> port_list s' = port_list s
          @ accepted (port_candidate sn (if_table s)) (set (dict_values (port_mapping s))) rows
     \<and> map fst (port_mapping s') = map fst (port_mapping s)
          @ accepted (port_candidate sn (if_table s)) (set (dict_values (port_mapping s))) rows
     \<and> distinct (map snd (port_mapping s'))"
proof (induction rows arbitrary: rd s)
  case Nil
  then show ?case by simp
next
  case (Cons entry rows)
  then obtain rd1 s1 where 1: "classify_row sn entry (rd, s) = Inr (rd1, s1)"
    and 2: "classify_rows sn rows (rd1, s1) = Inr (rd', s')"
    by (auto split: sum.splits)
  note st = classify_row_ports[OF 1]
  let ?cand = "port_candidate sn (if_table s)"
  let ?V = "set (dict_values (port_mapping s))"
  have fresh: "fst entry \<notin> fst ` set (port_mapping s)" using Cons.prems(3) by auto
  have dr: "distinct (map fst rows)" using Cons.prems(2) by simp
  have ne: "fst entry \<notin> fst ` set rows" using Cons.prems(2) by auto
  show ?case
  proof (cases "\<exists>pid. ?cand entry = Some pid \<and> pid \<notin> ?V")
    case True
    then obtain pid where c: "?cand entry = Some pid" "pid \<notin> ?V" by blast
    with st have u: "if_table s1 = if_table s"
      "port_mapping s1 = dict_set (fst entry) pid (port_mapping s)"
      "port_list s1 = port_list s @ [fst entry]" by auto
    have v1: "set (dict_values (port_mapping s1)) = insert pid ?V"
      unfolding u using fresh by (rule values_dict_set_fresh)
    have k1: "map fst (port_mapping s1) = map fst (port_mapping s) @ [fst entry]"
      unfolding u using fresh by (simp add: map_fst_dict_set)
    have d1: "distinct (map snd (port_mapping s1))"
      unfolding u using Cons.prems(4) c(2) fresh
      by (intro distinct_values_dict_set) (auto simp: dict_values_def)
    have f1: "fst ` set rows \<inter> fst ` set (port_mapping s1) = {}"
      using Cons.prems(3) ne k1 by (auto simp: u keys_dict_set[simplified])
    from Cons.IH[OF 2 dr f1 d1] c show ?thesis
      unfolding u(1) v1 k1 u(3) by simp
  next
    case False
    with st have u: "if_table s1 = if_table s" "port_mapping s1 = port_mapping s"
      "port_list s1 = port_list s"
      by (auto split: option.splits if_splits)
    have f1: "fst ` set rows \<inter> fst ` set (port_mapping s1) = {}"
      using Cons.prems(3) by (auto simp: u)
    from Cons.IH[OF 2 dr f1] Cons.prems(4) False show ?thesis
      unfolding u by (auto split: option.splits)
  qed
qed

lemma filter_loop_ports:
  "filter_loop raw elements s = Inr s' \<Longrightarrow>
     port_list s' = port_list s \<and> port_mapping s' = port_mapping s"
proof (induction elements arbitrary: s)
  case Nil
  then show ?case by simp
next
  case (Cons element elements)
  then obtain s1 where 1: "filter_step raw element s = Inr s1"
    and 2: "filter_loop raw elements s1 = Inr s'"
    by (auto split: sum.splits)
  from 1 have "port_list s1 = port_list s \<and> port_mapping s1 = port_mapping s"
    by (auto simp: filter_step_def and_then_eq_Inr split: if_splits)
  with Cons.IH[OF 2] show ?case by simp
qed


subsection \<open>The dual bay repair\<close>

text \<open>
  The keys that \<open>sorted_keys\<close> returns are the keys of the table in another order, and a
  loop of \<open>reparent\<close> over distinct children changes each of them once.
\<close>

lemma with_positions_keys: "with_positions t = Inr ps \<Longrightarrow> map snd ps = map fst t"
proof (induction t arbitrary: ps)
  case Nil
  then show ?case by simp
next
  case (Cons e t)
  obtain index row where e: "e = (index, row)" by (cases e)
  from Cons.prems e obtain pos ps' where "with_positions t = Inr ps'" "ps = (pos, index) # ps'"
    by (auto split: option.splits sum.splits)
  with Cons.IH[of ps'] e show ?case by simp
qed

lemma sorted_keys_facts:
  assumes "sorted_keys t = Inr ks"
  shows "set ks = fst ` set t" and "length ks = length t"
    and "distinct (map fst t) \<Longrightarrow> distinct ks"
proof -
  from assms obtain ps where ps: "with_positions t = Inr ps"
    and ks: "ks = map snd (sort_key fst ps)"
    by (cases "with_positions t") (auto simp: sorted_keys_def)
  note k = with_positions_keys[OF ps]
  have "set ks = set (map snd ps)" unfolding ks by simp
  then show s: "set ks = fst ` set t" unfolding k by simp
  have "length ks = length (map snd ps)" unfolding ks by simp
  then show l: "length ks = length t" unfolding k by simp
  assume "distinct (map fst t)"
  then have "card (set (map fst t)) = length t" using distinct_card[of "map fst t"] by simp
  with s l have "card (set ks) = length ks" by simp
  then show "distinct ks" by (rule card_distinct)
qed

lemma children_of_facts:
  assumes "children_of et c = Inr ks" and "distinct (map fst et)"
  shows "distinct ks"
    and "length ks = length (filter_by_column
           (\<lambda>row. entPhysicalContainedIn row = PyStr (py_str c)) et)"
    and "i \<in> set ks \<longleftrightarrow>
           (\<exists>row. map_of et i = Some row \<and> entPhysicalContainedIn row = PyStr (py_str c))"
proof -
  let ?t = "filter_by_column (\<lambda>row. entPhysicalContainedIn row = PyStr (py_str c)) et"
  from assms(1) have sk: "sorted_keys ?t = Inr ks" by (simp add: children_of_def)
  have d: "distinct (map fst ?t)"
    using assms(2) by (simp add: filter_by_column_def distinct_map_filter)
  from sorted_keys_facts(3)[OF sk d] show "distinct ks" .
  from sorted_keys_facts(2)[OF sk] show "length ks = length ?t" .
  have "i \<in> set ks \<longleftrightarrow> i \<in> fst ` set ?t" using sorted_keys_facts(1)[OF sk] by simp
  also have "\<dots> \<longleftrightarrow> (\<exists>row. (i, row) \<in> set et \<and> entPhysicalContainedIn row = PyStr (py_str c))"
    by (auto simp: filter_by_column_def image_iff)
  also have "\<dots> \<longleftrightarrow> (\<exists>row. map_of et i = Some row \<and> entPhysicalContainedIn row = PyStr (py_str c))"
    using assms(2) by (simp add: map_of_eq_Some_iff)
  finally show "i \<in> set ks \<longleftrightarrow>
     (\<exists>row. map_of et i = Some row \<and> entPhysicalContainedIn row = PyStr (py_str c))" .
qed

lemma map_fst_set_row: "map fst (set_row table i f) = map fst table"
  by (induction table) (auto simp: set_row_def)

lemma map_of_set_row:
  "map_of (set_row table i f) k = (if k = i then map_option f (map_of table i) else map_of table k)"
  by (induction table) (auto simp: set_row_def)

lemma reparent_effect:
  "reparent upper n children et = Inr et' \<Longrightarrow> distinct children \<Longrightarrow>
     map fst et' = map fst et
     \<and> (\<forall>i row. map_of et i = Some row \<longrightarrow>
          (if i \<in> set children
           then \<exists>pos. py_int (entPhysicalParentRelPos row) = Some pos
                  \<and> map_of et' i = Some (row\<lparr>entPhysicalContainedIn := PyInt upper,
                                               entPhysicalParentRelPos := py_str (n + pos)\<rparr>)
           else map_of et' i = Some row))"
proof (induction children arbitrary: et)
  case Nil
  then show ?case by simp
next
  case (Cons child rest)
  let ?f = "\<lambda>pos r. r\<lparr>entPhysicalContainedIn := PyInt upper,
                        entPhysicalParentRelPos := py_str (n + pos)\<rparr>"
  from Cons.prems(1) obtain row0 pos0 where
    g: "map_of et child = Some row0"
    and p: "py_int (entPhysicalParentRelPos row0) = Some pos0"
    and r: "reparent upper n rest (set_row et child (?f pos0)) = Inr et'"
    by (auto simp: dict_get_def split: option.splits sum.splits)
  from Cons.prems(2) have dr: "distinct rest" and nr: "child \<notin> set rest" by simp_all
  note ih = Cons.IH[OF r dr]
  have keys: "map fst et' = map fst et" using ih by (simp add: map_fst_set_row)
  have rows: "if i \<in> set (child # rest)
           then \<exists>pos. py_int (entPhysicalParentRelPos row) = Some pos
                  \<and> map_of et' i = Some (?f pos row)
           else map_of et' i = Some row"
    if m: "map_of et i = Some row" for i row
  proof (cases "i = child")
    case True
    with m g have same: "row = row0" by simp
    have "map_of (set_row et child (?f pos0)) child = Some (?f pos0 row0)"
      using g by (simp add: map_of_set_row)
    with ih nr have "map_of et' child = Some (?f pos0 row0)" by auto
    with True same p show ?thesis by auto
  next
    case False
    with m have "map_of (set_row et child (?f pos0)) i = Some row"
      by (simp add: map_of_set_row)
    with ih False show ?thesis by auto
  qed
  from keys rows show ?case by blast
qed


lemma filter_lower_bay_containers_effect:
  assumes "filter_lower_bay_containers sn s = Inr s'"
    and "entity_table s = Some et" and "distinct (map fst et)"
  shows "exclusion_list s' = exclusion_list s \<and> relative_path s' = relative_path s
    \<and> port_list s' = port_list s
    \<and> (\<exists>et'. entity_table s' = Some et' \<and> map fst et' = map fst et
         \<and> (\<forall>containers upper lower i row.
               sorted_keys (filter_by_column (\<lambda>row. entPhysicalClass row = ''container'') et)
                 = Inr containers
               \<and> find_bays sn containers (None, None) = (Some upper, Some lower)
               \<and> upper \<noteq> 0 \<and> lower \<noteq> 0 \<and> map_of et i = Some row \<longrightarrow>
               (if entPhysicalContainedIn row = PyStr (py_str lower)
                then \<exists>pos. py_int (entPhysicalParentRelPos row) = Some pos
                       \<and> map_of et' i = Some (row\<lparr>entPhysicalContainedIn := PyInt upper,
                            entPhysicalParentRelPos := py_str (int (length (filter_by_column
                              (\<lambda>r. entPhysicalContainedIn r = PyStr (py_str upper)) et)) + pos)\<rparr>)
                else map_of et' i = Some row)))"
proof -
  let ?cs = "sorted_keys (filter_by_column (\<lambda>row. entPhysicalClass row = ''container'') et)"
  from assms(1,2) obtain containers where c: "?cs = Inr containers"
    by (cases ?cs) (auto simp: filter_lower_bay_containers_def self_entity_table_def)
  obtain u l where f: "find_bays sn containers (None, None) = (u, l)"
    by (cases "find_bays sn containers (None, None)")
  show ?thesis
  proof (cases "\<exists>upper lower. u = Some upper \<and> l = Some lower \<and> upper \<noteq> 0 \<and> lower \<noteq> 0")
    case False
    with assms(1,2) c f have "s' = s"
      by (auto simp: filter_lower_bay_containers_def self_entity_table_def
               split: option.splits if_splits)
    with assms(2) c f False show ?thesis by auto
  next
    case True
    then obtain upper lower where ul: "u = Some upper" "l = Some lower" "upper \<noteq> 0" "lower \<noteq> 0"
      by blast
    from assms(1,2) c f ul obtain uc lc et' where
      uc: "children_of et upper = Inr uc" and lc: "children_of et lower = Inr lc"
      and r: "reparent upper (int (length uc)) lc et = Inr et'"
      and s': "s' = s\<lparr>entity_table := Some et'\<rparr>"
      by (auto simp: filter_lower_bay_containers_def self_entity_table_def and_then_eq_Inr)
    note dl = children_of_facts(1)[OF lc assms(3)]
    note ml = children_of_facts(3)[OF lc assms(3)]
    note lu = children_of_facts(2)[OF uc assms(3)]
    note re = reparent_effect[OF r dl]
    have rows: "if entPhysicalContainedIn row = PyStr (py_str lower)
                then \<exists>pos. py_int (entPhysicalParentRelPos row) = Some pos
                       \<and> map_of et' i = Some (row\<lparr>entPhysicalContainedIn := PyInt upper,
                            entPhysicalParentRelPos := py_str (int (length (filter_by_column
                              (\<lambda>r. entPhysicalContainedIn r = PyStr (py_str upper)) et)) + pos)\<rparr>)
                else map_of et' i = Some row"
      if m: "map_of et i = Some row" for i row
    proof -
      from m ml[of i] have "i \<in> set lc \<longleftrightarrow> entPhysicalContainedIn row = PyStr (py_str lower)"
        by simp
      with re m show ?thesis unfolding lu by auto
    qed
    from s' re rows c f ul show ?thesis by auto
  qed
qed

lemma classify_rows_distinct:
  "classify_rows sn rows (rd, s) = Inr (rd', s') \<Longrightarrow> distinct (map fst rd) \<Longrightarrow>
     distinct (map fst rd')"
proof (induction rows arbitrary: rd s)
  case Nil
  then show ?case by simp
next
  case (Cons entry rows)
  then obtain rd1 s1 where 1: "classify_row sn entry (rd, s) = Inr (rd1, s1)"
    and 2: "classify_rows sn rows (rd1, s1) = Inr (rd', s')"
    by (auto split: sum.splits)
  from 1 have "rd1 = rd \<or> (\<exists>row. rd1 = dict_set (fst entry) row rd)"
    by (cases entry)
       (auto simp: classify_row_def Let_def and_then_eq_Inr
             split: if_splits prod.splits option.splits)
  with Cons.prems(2) have "distinct (map fst rd1)"
    by (auto intro: distinct_dict_set)
  from Cons.IH[OF 2 this] show ?case .
qed

lemma load_snmp_tables_table:
  assumes "load_snmp_tables elements_of sn s = Inr s1"
  obtains et where "entity_table s1 = Some et" and "distinct (map fst et)"
proof -
  from assms obtain rd s0 where
    g: "get_entity_table elements_of sn (s\<lparr>if_table := if_descr_table sn\<rparr>) = Inr (rd, s0)"
    and s1: "s1 = s0\<lparr>entity_table := Some rd\<rparr>"
    by (auto simp: load_snmp_tables_def and_then_eq_Inr split: if_splits)
  from g obtain s2 where
    "classify_rows sn (physical_indexes sn) ([], s\<lparr>if_table := if_descr_table sn\<rparr>) = Inr (rd, s2)"
    by (rule get_entity_table_parts)
  from classify_rows_distinct[OF this] have "distinct (map fst rd)" by simp
  with s1 that show ?thesis by simp
qed

lemma for_each_preserves:
  assumes "for_each step xs s = Inr s'"
    and "\<And>s x s'. step s x = Inr s' \<Longrightarrow> f s' = f s"
  shows "f s' = f s"
  using assms(1)
proof (induction xs arbitrary: s)
  case Nil
  then show ?case by simp
next
  case (Cons x xs)
  then obtain s1 where 1: "step s x = Inr s1" and 2: "for_each step xs s1 = Inr s'"
    by (auto split: sum.splits)
  from Cons.IH[OF 2] assms(2)[OF 1] show ?case by simp
qed

lemma chassis_path_fields:
  "chassis_path depth s chassis = Inr s' \<Longrightarrow>
     entity_table s' = entity_table s \<and> exclusion_list s' = exclusion_list s"
  by (auto simp: chassis_path_def and_then_eq_Inr split: if_splits)

lemma module_path_table:
  "module_path depth s module = Inr s' \<Longrightarrow> entity_table s' = entity_table s"
  by (auto simp: module_path_def and_then_eq_Inr split: if_splits)

lemma port_path_table:
  "port_path depth s port = Inr s' \<Longrightarrow> entity_table s' = entity_table s"
  by (auto simp: port_path_def and_then_eq_Inr split: if_splits)

lemma add_relative_paths_table:
  assumes "add_relative_paths depth s = Inr s'"
  shows "entity_table s' = entity_table s"
proof -
  from assms obtain s1 where 1: "for_each (module_path depth) (module_list s) s = Inr s1"
    and 2: "for_each (port_path depth) (port_list s) s1 = Inr s'"
    by (auto simp: add_relative_paths_def and_then_eq_Inr)
  from for_each_preserves[OF 1, of entity_table] have "entity_table s1 = entity_table s"
    by (auto dest: module_path_table)
  moreover from for_each_preserves[OF 2, of entity_table] have "entity_table s' = entity_table s1"
    by (auto dest: port_path_table)
  ultimately show ?thesis by simp
qed

section \<open>Properties\<close>

text \<open>
  C8. The claim reads: the IP attribute is the key of the first table entry whose
  interface index equals the port's logical index, and it stays empty only when no entry
  matches. The code looks at the first entry of the table only, and only when the table has
  at least two entries: with the addresses 10.0.0.1 (interface 1) and 10.0.0.2
  (interface 2), port 2 gets no address although the second entry matches, and with
  a table of the single entry 10.0.0.1 (interface 1), port 1 gets none either.
\<close>

theorem ip_details_only_first_entry:
  "get_ip_interface_details
     [(''10.0.0.1'', [''ipAdEntIfIndex'' \<mapsto> ''1'']), (''10.0.0.2'', [''ipAdEntIfIndex'' \<mapsto> ''2''])]
     [] 2
   = Inr \<lparr>ipv4_address = '''', ipv6_address = ''''\<rparr>
   \<and> get_ip_interface_details [(''10.0.0.1'', [''ipAdEntIfIndex'' \<mapsto> ''1''])] [] 1
   = Inr \<lparr>ipv4_address = '''', ipv6_address = ''''\<rparr>"
  by (simp add: get_ip_interface_details_def ip_lookup_def py_int_def strip_def is_space_def
      unsigned_def is_digit_def digit_val_def)

text \<open>
  C7. A row whose \<^verbatim>\<open>entPhysicalParentRelPos\<close> is the empty string leaves the loop at
  once: its index is appended to the exclusion list and nothing else changes. The result
  does not depend on the SNMP handler, so no attribute of the row is fetched and no class
  is inferred for it. After \<^verbatim>\<open>_get_entity_table\<close> the index of every such row is in the
  exclusion list.
\<close>

theorem empty_position_excluded_first:
  "classify_row sn (index, '''') (rd, s)
     = Inr (rd, s\<lparr>exclusion_list := exclusion_list s @ [index]\<rparr>)
   \<and> (get_entity_table elements_of sn s0 = Inr (rd', s') \<longrightarrow>
        (index, '''') \<in> set (physical_indexes sn) \<longrightarrow> index \<in> set (exclusion_list s'))"
proof (intro conjI impI)
  show "classify_row sn (index, '''') (rd, s)
     = Inr (rd, s\<lparr>exclusion_list := exclusion_list s @ [index]\<rparr>)"
    by (rule classify_row_empty_position)
next
  assume g: "get_entity_table elements_of sn s0 = Inr (rd', s')"
    and m: "(index, '''') \<in> set (physical_indexes sn)"
  from g obtain s1 where c: "classify_rows sn (physical_indexes sn) ([], s0) = Inr (rd', s1)"
    and f: "filter_entity_table (elements_of rd') rd' s1 = Inr s'"
    by (rule get_entity_table_parts)
  from classify_rows_empty_position[OF c m] have "index \<in> set (exclusion_list s1)" .
  moreover from f have "set (exclusion_list s1) \<subseteq> set (exclusion_list s')"
    unfolding filter_entity_table_def by (rule filter_loop_exclusion_mono)
  ultimately show "index \<in> set (exclusion_list s')" by blast
qed

theorem empty_position_excluded_first_witness:
  "\<exists>rd' s'. get_entity_table no_elements sample_snmp init = Inr (rd', s')
     \<and> (5, '''') \<in> set (physical_indexes sample_snmp) \<and> 5 \<in> set (exclusion_list s')"
proof -
  have "map_sum id (\<lambda>(rd, s). exclusion_list s) (get_entity_table no_elements sample_snmp init)
        = Inr [5]"
    by code_simp
  then obtain rd' s' where g: "get_entity_table no_elements sample_snmp init = Inr (rd', s')"
    by (cases "get_entity_table no_elements sample_snmp init") auto
  have m: "(5, '''') \<in> set (physical_indexes sample_snmp)"
    by (simp add: sample_snmp_def)
  from empty_position_excluded_first[of sample_snmp 5 "[]" init no_elements init rd' s'] g m
  show ?thesis by blast
qed

text \<open>
  C3. The claim reads: after one pass of the exclusion propagation every retained node
  whose parent is not retained, or is excluded, is in the exclusion list. The pass reads
  the parent of each element from \<^verbatim>\<open>self.entity_table\<close>, an attribute that exists only
  after \<^verbatim>\<open>_get_entity_table\<close> has returned, while the pass runs inside it. On the device
  whose only row is module 2 inside the missing entity 1, a pass that visits the retained
  rows ends in an \<^verbatim>\<open>AttributeError\<close>, and a pass that is handed no element leaves the
  exclusion list empty: in neither case is node 2 excluded.
\<close>

theorem propagation_reads_unset_table:
  "load_snmp_tables all_elements orphan_snmp init = Inl AttributeError
   \<and> map_sum id exclusion_list (load_snmp_tables no_elements orphan_snmp init) = Inr []"
  by code_simp



text \<open>
  C10, as stated, at the chain of power supplies 10, 11, 12: entry 12 has the parent 11,
  which is a power supply and is in the list when the filter starts, yet 12 stays in the
  list, because 11 has been removed by the time 12 is examined.
\<close>

theorem power_chain_counterexample:
  "map_sum id power_supply_list (filter_power_port_list power_chain) = Inr [10, 12]
   \<and> parent_of power_chain 12 = Inr 11
   \<and> map_sum id entPhysicalClass (row_of power_chain 11) = Inr ''powerSupply''
   \<and> 11 \<in> set (power_supply_list power_chain)"
  by code_simp

text \<open>
  C10, amended. \<^verbatim>\<open>_get_power_ports\<close> filters the list before it emits anything. The
  filter removes entries only, and an entry is removed when its parent is a power supply
  that is in the list at the moment the entry is examined; so no entry of the filtered
  list has a power supply parent that is in the filtered list too, and one resource is
  emitted for each entry of the filtered list.
\<close>

theorem power_ports_after_filter:
  assumes "get_power_ports depth details s = Inr s2"
  shows "\<exists>s1. filter_power_port_list s = Inr s1
    \<and> set (power_supply_list s1) \<subseteq> set (power_supply_list s)
    \<and> (\<forall>pp \<in> set (power_supply_list s1). \<forall>p prow.
          parent_of s pp = Inr p \<and> row_of s p = Inr prow
          \<and> contains (entPhysicalClass prow) ''powerSupply''
          \<longrightarrow> p \<notin> set (power_supply_list s1))
    \<and> length (resources s2) = length (resources s) + length (power_supply_list s1)"
proof -
  from assms obtain s1 where f: "filter_power_port_list s = Inr s1"
    and e: "for_each (power_port depth details) (power_supply_list s1) s1 = Inr s2"
    by (auto simp: get_power_ports_def and_then_eq_Inr)
  have "resources s1 = resources s"
    using power_loop_subset f unfolding filter_power_port_list_def by blast
  with for_each_power_port_resources[OF e] power_filter[OF f] f show ?thesis by auto
qed

theorem power_ports_after_filter_witness:
  "\<exists>s2 s1. get_power_ports 10 (\<lambda>i. []) power_chain = Inr s2
     \<and> filter_power_port_list power_chain = Inr s1
     \<and> power_supply_list s1 = [10, 12]
     \<and> length (resources s2) = length (resources power_chain) + length (power_supply_list s1)"
proof -
  have "map_sum id (\<lambda>s. ()) (get_power_ports 10 (\<lambda>i. []) power_chain) = Inr ()"
    by code_simp
  then obtain s2 where g: "get_power_ports 10 (\<lambda>i. []) power_chain = Inr s2"
    by (cases "get_power_ports 10 (\<lambda>i. []) power_chain") auto
  from power_ports_after_filter[OF g] power_chain_filtered g show ?thesis
    by auto
qed

text \<open>
  C2. An address \<open>pre/seg\<close> whose last segment reads as the number \<open>n\<close> goes through the
  collision pass as follows, as long as the stack allows one call for each assigned
  address: the pass returns the first address of the sequence \<open>pre/seg\<close>,
  \<open>pre/(n + 1000)\<close>, \<open>pre/(n + 2000)\<close>, ... that is not assigned yet, all the earlier ones
  being assigned. In particular, when \<open>pre/seg\<close> is assigned (to the port processed first)
  and \<open>pre/(n + 1000)\<close> is not, the port processed second gets \<open>pre/(n + 1000)\<close>.
\<close>

theorem offset_until_unique:
  assumes "CHR ''/'' \<notin> set seg" and "py_int seg = Some n" and "length vals < depth"
  shows "(\<exists>k. get_port_relative_path depth vals (pre @ ''/'' @ seg)
                = Inr (offset_address pre seg n k)
              \<and> offset_address pre seg n k \<notin> set vals
              \<and> (\<forall>j<k. offset_address pre seg n j \<in> set vals))
       \<and> (pre @ ''/'' @ seg \<in> set vals \<and> pre @ ''/'' @ py_str (n + 1000) \<notin> set vals
            \<longrightarrow> get_port_relative_path depth vals (pre @ ''/'' @ seg)
                  = Inr (pre @ ''/'' @ py_str (n + 1000)))"
proof -
  define k where "k = (LEAST k. offset_address pre seg n k \<notin> set vals)"
  from free_candidate[OF assms(2), of vals pre]
  obtain k0 where k0: "k0 \<le> length vals" "offset_address pre seg n k0 \<notin> set vals" by blast
  have free: "offset_address pre seg n k \<notin> set vals"
    unfolding k_def using k0(2) by (rule LeastI)
  have least: "\<And>j. j < k \<Longrightarrow> offset_address pre seg n j \<in> set vals"
    unfolding k_def using not_less_Least by blast
  have "k \<le> k0" unfolding k_def using k0(2) by (rule Least_le)
  with k0(1) assms(3) have "k < depth" by simp
  then obtain d where d: "depth = Suc (k + d)" by (metis less_iff_Suc_add)
  have run: "get_port_relative_path depth vals (offset_address pre seg n 0)
          = Inr (offset_address pre seg n k)"
    using collision_run[OF assms(1,2), of 0 k pre vals d] free least unfolding d by simp
  then have res: "get_port_relative_path depth vals (pre @ ''/'' @ seg)
          = Inr (offset_address pre seg n k)"
    by (simp add: offset_address_def)
  have part: "get_port_relative_path depth vals (pre @ ''/'' @ seg)
                  = Inr (pre @ ''/'' @ py_str (n + 1000))"
    if a: "pre @ ''/'' @ seg \<in> set vals" and b: "pre @ ''/'' @ py_str (n + 1000) \<notin> set vals"
  proof -
    have "k \<noteq> 0"
    proof
      assume "k = 0"
      with free a show False by (simp add: offset_address_def)
    qed
    moreover have "\<not> 1 < k"
    proof
      assume "1 < k"
      from least[OF this] b show False by (simp add: offset_address_def)
    qed
    ultimately have "k = 1" by simp
    with res show ?thesis by (simp add: offset_address_def)
  qed
  from res free least part show ?thesis by blast
qed

theorem offset_until_unique_witness:
  "CHR ''/'' \<notin> set ''1'' \<and> py_int ''1'' = Some 1
   \<and> length [''0'', ''0/1'', ''0/1/1''] < 50
   \<and> get_port_relative_path 50 [''0'', ''0/1'', ''0/1/1''] ''0/1/1'' = Inr ''0/1/1001''"
proof -
  have a: "CHR ''/'' \<notin> set ''1''" by simp
  have b: "py_int ''1'' = Some 1" by code_simp
  have c: "length [''0'', ''0/1'', ''0/1/1''] < (50::nat)" by simp
  have d: "py_str (1 + 1000) = ''1001''" by code_simp
  from offset_until_unique[OF a b c, of "''0/1''"] d
  have "get_port_relative_path 50 [''0'', ''0/1'', ''0/1/1''] ''0/1/1'' = Inr ''0/1/1001''"
    by simp
  with a b c show ?thesis by blast
qed

text \<open>
  C1, as stated, on the sample switch: when \<^verbatim>\<open>add_relative_paths\<close> has run, the nodes
  with an address are 1, 2, 3 and 6, while nodes 4 (a port dropped for its name), 7 (a
  port whose interface was claimed before) and 9 (a power supply) are rows of the entity
  table, are not in the exclusion list, and have no entry in the relative-path mapping.
\<close>

theorem retained_without_address_counterexample:
  "map_sum id (map_option tree_summary)
     (discover_tree 50 no_elements sample_device sample_snmp init)
   = Inr (Some ([1, 2, 3, 6], [5], [1, 2, 3, 4, 6, 7, 9]))"
  by code_simp

text \<open>
  C1, amended. When \<^verbatim>\<open>add_relative_paths\<close> returns, two distinct ports of the port list
  that are not excluded have different addresses, and every node of the module list or of
  the port list that is not excluded has exactly one entry in the relative-path mapping
  (a dictionary, so its keys are distinct to begin with).
\<close>

theorem port_addresses_unique:
  assumes "add_relative_paths depth s = Inr s'"
    and "distinct (map fst (relative_path s))"
  shows "(\<forall>p \<in> set (port_list s) - set (exclusion_list s).
            \<forall>q \<in> set (port_list s) - set (exclusion_list s).
              p \<noteq> q \<longrightarrow> map_of (relative_path s') p \<noteq> map_of (relative_path s') q)
       \<and> (\<forall>x \<in> (set (module_list s) \<union> set (port_list s)) - set (exclusion_list s).
            length (filter (\<lambda>e. fst e = x) (relative_path s')) = 1)"
proof -
  from assms(1) obtain s1 where m: "for_each (module_path depth) (module_list s) s = Inr s1"
    and p: "for_each (port_path depth) (port_list s) s1 = Inr s'"
    by (auto simp: add_relative_paths_def and_then_eq_Inr)
  note ml = module_loop_addresses[OF m]
  have "\<forall>p \<in> {}. own_address (relative_path s1) p" by simp
  note pl = port_loop_addresses[OF p this]
  have d: "distinct (map fst (relative_path s'))" using ml pl assms(2) by blast
  have own: "own_address (relative_path s') p"
    if "p \<in> set (port_list s) - set (exclusion_list s)" for p
    using that ml pl by auto
  have has: "map_of (relative_path s') x \<noteq> None"
    if "x \<in> (set (module_list s) \<union> set (port_list s)) - set (exclusion_list s)" for x
  proof (cases "x \<in> set (port_list s)")
    case True
    with that own[of x] show ?thesis by (auto simp: own_address_def)
  next
    case False
    with that have "map_of (relative_path s1) x \<noteq> None" using ml by auto
    with pl show ?thesis by blast
  qed
  show ?thesis
  proof (intro conjI ballI impI)
    fix p q
    assume "p \<in> set (port_list s) - set (exclusion_list s)"
      "q \<in> set (port_list s) - set (exclusion_list s)" "p \<noteq> q"
    with own[of p] show "map_of (relative_path s') p \<noteq> map_of (relative_path s') q"
      by (auto simp: own_address_def)
  next
    fix x
    assume "x \<in> (set (module_list s) \<union> set (port_list s)) - set (exclusion_list s)"
    from has[OF this] obtain a where "map_of (relative_path s') x = Some a" by auto
    from one_entry[OF d this] show "length (filter (\<lambda>e. fst e = x) (relative_path s')) = 1" .
  qed
qed

theorem port_addresses_unique_witness:
  "\<exists>s'. add_relative_paths 50 two_ports = Inr s'
     \<and> distinct (map fst (relative_path two_ports))
     \<and> map_of (relative_path s') 3 \<noteq> map_of (relative_path s') 6
     \<and> length (filter (\<lambda>e. fst e = 2) (relative_path s')) = 1"
proof -
  have "map_sum id relative_path (add_relative_paths 50 two_ports)
        = Inr [(1, ''0''), (2, ''0/1''), (3, ''0/1/1''), (6, ''0/1/1001'')]"
    by code_simp
  then obtain s' where a: "add_relative_paths 50 two_ports = Inr s'"
    by (cases "add_relative_paths 50 two_ports") auto
  have d: "distinct (map fst (relative_path two_ports))"
    by (simp add: two_ports_def init_def)
  have l: "port_list two_ports = [3, 6]" "module_list two_ports = [2]"
    "exclusion_list two_ports = []"
    by (simp_all add: two_ports_def init_def)
  from port_addresses_unique[OF a d] l
  have "map_of (relative_path s') 3 \<noteq> map_of (relative_path s') 6"
    "length (filter (\<lambda>e. fst e = 2) (relative_path s')) = 1"
    by auto
  with a d show ?thesis by blast
qed

text \<open>
  C9. When \<^verbatim>\<open>get_module_list\<close> and then \<^verbatim>\<open>add_relative_paths\<close> have run, every node
  of the module list (apart from those listed before) lies above a port of the port list
  on the walk of \<^verbatim>\<open>_get_module_parents\<close>, has a vendor type that does not match the
  module exclusion pattern, and is not excluded; and every node that has an address had one
  before, or is a port of the port list, or is such a module.
\<close>

theorem modules_are_port_ancestors:
  assumes "get_module_list depth sn s = Inr s1" and "add_relative_paths depth s1 = Inr s2"
  shows "(\<forall>m \<in> set (module_list s2).
            m \<in> set (module_list s)
            \<or> ((\<exists>port \<in> set (port_list s). module_above s port m) \<and> module_wanted sn s m))
       \<and> (\<forall>m \<in> fst ` set (relative_path s2).
            m \<in> fst ` set (relative_path s) \<or> m \<in> set (port_list s)
            \<or> m \<in> set (module_list s)
            \<or> ((\<exists>port \<in> set (port_list s). module_above s port m) \<and> module_wanted sn s m))"
proof -
  note g = module_loop_above[OF assms(1)[unfolded get_module_list_def]]
  from assms(2) obtain t where m: "for_each (module_path depth) (module_list s1) s1 = Inr t"
    and p: "for_each (port_path depth) (port_list s1) t = Inr s2"
    by (auto simp: add_relative_paths_def and_then_eq_Inr)
  note mk = module_paths_keys[OF m]
  note pk = port_paths_keys[OF p]
  have ml: "set (module_list s2) \<subseteq> set (module_list s1)" using mk pk by simp
  have keys: "fst ` set (relative_path s2)
      \<subseteq> set (port_list s) \<union> set (module_list s1) \<union> fst ` set (relative_path s)"
  proof -
    from g have e: "port_list s1 = port_list s" "relative_path s1 = relative_path s" by simp_all
    from mk pk show ?thesis unfolding e by blast
  qed
  show ?thesis
  proof (intro conjI ballI)
    fix m assume "m \<in> set (module_list s2)"
    with ml g show "m \<in> set (module_list s)
            \<or> ((\<exists>port \<in> set (port_list s). module_above s port m) \<and> module_wanted sn s m)"
      by blast
  next
    fix m assume "m \<in> fst ` set (relative_path s2)"
    with keys have "m \<in> set (port_list s) \<or> m \<in> set (module_list s1)
        \<or> m \<in> fst ` set (relative_path s)" by blast
    with g show "m \<in> fst ` set (relative_path s) \<or> m \<in> set (port_list s)
            \<or> m \<in> set (module_list s)
            \<or> ((\<exists>port \<in> set (port_list s). module_above s port m) \<and> module_wanted sn s m)"
      by blast
  qed
qed

theorem modules_are_port_ancestors_witness:
  "\<exists>s1 s2 port. get_module_list 50 sample_snmp ports_only = Inr s1
     \<and> add_relative_paths 50 s1 = Inr s2
     \<and> module_list s2 = [2]
     \<and> port \<in> set (port_list ports_only) \<and> module_above ports_only port 2
     \<and> module_wanted sample_snmp ports_only 2"
proof -
  have "map_sum id module_list
          (and_then (get_module_list 50 sample_snmp ports_only) (add_relative_paths 50))
        = Inr [2]"
    by code_simp
  then obtain s2 where "and_then (get_module_list 50 sample_snmp ports_only)
      (add_relative_paths 50) = Inr s2" and l: "module_list s2 = [2]"
    by (cases "and_then (get_module_list 50 sample_snmp ports_only) (add_relative_paths 50)")
       auto
  then obtain s1 where g: "get_module_list 50 sample_snmp ports_only = Inr s1"
    and a: "add_relative_paths 50 s1 = Inr s2"
    by (auto simp: and_then_eq_Inr)
  have e: "module_list ports_only = []"
    by (simp add: ports_only_def two_ports_def init_def)
  from modules_are_port_ancestors[OF g a] l e
  have "(\<exists>port \<in> set (port_list ports_only). module_above ports_only port 2)
      \<and> module_wanted sample_snmp ports_only 2"
    by simp
  with g a l show ?thesis by blast
qed

text \<open>
  C6. On a new instance (no port listed, no interface claimed) and an inventory table with
  distinct indexes: the index of an entry is in the port list after \<^verbatim>\<open>_get_entity_table\<close>
  exactly when the entry is a candidate (its row is of class \<^verbatim>\<open>port\<close>, neither name nor
  description matches the exclusion pattern, and the mapping gives an interface index that
  is truthy, so not \<open>0\<close>, and a key of the interface table) and no entry before it in
  the table is a candidate for the same interface. The port mapping sends different ports
  to different interfaces, and its keys are the port list.
\<close>

theorem first_claim_wins:
  assumes "get_entity_table elements_of sn s = Inr (result_dict, s')"
    and "distinct (map fst (physical_indexes sn))"
    and "port_mapping s = []" and "port_list s = []"
  shows "(\<forall>pre entry post. physical_indexes sn = pre @ entry # post \<longrightarrow>
            (fst entry \<in> set (port_list s') \<longleftrightarrow>
               (\<exists>pid. port_candidate sn (if_table s) entry = Some pid
                  \<and> (\<forall>e \<in> set pre. port_candidate sn (if_table s) e \<noteq> Some pid))))
       \<and> (\<forall>a b v. map_of (port_mapping s') a = Some v \<and> map_of (port_mapping s') b = Some v
            \<longrightarrow> a = b)
       \<and> map fst (port_mapping s') = port_list s'"
proof -
  from assms(1) obtain s1 where c: "classify_rows sn (physical_indexes sn) ([], s) = Inr (result_dict, s1)"
    and f: "filter_entity_table (elements_of result_dict) result_dict s1 = Inr s'"
    by (rule get_entity_table_parts)
  from f have same: "port_list s' = port_list s1" "port_mapping s' = port_mapping s1"
    unfolding filter_entity_table_def by (auto dest: filter_loop_ports)
  let ?cand = "port_candidate sn (if_table s)"
  from classify_rows_ports[OF c assms(2)] assms(3,4)
  have pl: "port_list s1 = accepted ?cand {} (physical_indexes sn)"
    and keys: "map fst (port_mapping s1) = accepted ?cand {} (physical_indexes sn)"
    and dv: "distinct (map snd (port_mapping s1))"
    by (simp_all add: dict_values_def)
  have pos: "fst entry \<in> set (port_list s') \<longleftrightarrow>
               (\<exists>pid. ?cand entry = Some pid \<and> (\<forall>e \<in> set pre. ?cand e \<noteq> Some pid))"
    if d: "physical_indexes sn = pre @ entry # post" for pre entry post
  proof
    assume "fst entry \<in> set (port_list s')"
    then obtain pre2 e2 post2 pid where d2: "physical_indexes sn = pre2 @ e2 # post2"
      and e2: "fst e2 = fst entry" "?cand e2 = Some pid" "\<forall>e' \<in> set pre2. ?cand e' \<noteq> Some pid"
      unfolding same pl accepted_iff by blast
    from assms(2) d have "distinct (map fst (pre @ entry # post))" by simp
    from unique_position[OF this d2[unfolded d] e2(1)[symmetric]]
    have "pre = pre2" "entry = e2" by simp_all
    with e2 show "\<exists>pid. ?cand entry = Some pid \<and> (\<forall>e \<in> set pre. ?cand e \<noteq> Some pid)"
      by blast
  next
    assume "\<exists>pid. ?cand entry = Some pid \<and> (\<forall>e \<in> set pre. ?cand e \<noteq> Some pid)"
    with d show "fst entry \<in> set (port_list s')"
      unfolding same pl accepted_iff by blast
  qed
  have inj: "a = b"
    if "map_of (port_mapping s') a = Some v \<and> map_of (port_mapping s') b = Some v" for a b v
    using that distinct_values_inj[OF dv] unfolding same by blast
  from pos inj keys pl same show ?thesis by auto
qed

theorem first_claim_wins_witness:
  "\<exists>rd s'. get_entity_table no_elements sample_snmp sample_start = Inr (rd, s')
     \<and> distinct (map fst (physical_indexes sample_snmp))
     \<and> port_mapping sample_start = [] \<and> port_list sample_start = []
     \<and> port_list s' = [3, 6] \<and> map fst (port_mapping s') = [3, 6]
     \<and> port_candidate sample_snmp (if_table sample_start) (3, ''1'') = Some 101
     \<and> port_candidate sample_snmp (if_table sample_start) (7, ''3'') = Some 101"
proof -
  have "map_sum id (port_list \<circ> snd) (get_entity_table no_elements sample_snmp sample_start)
        = Inr [3, 6]"
    by code_simp
  then obtain rd s' where g: "get_entity_table no_elements sample_snmp sample_start = Inr (rd, s')"
    and l: "port_list s' = [3, 6]"
    by (cases "get_entity_table no_elements sample_snmp sample_start") auto
  have d: "distinct (map fst (physical_indexes sample_snmp))"
    by (simp add: sample_snmp_def)
  have e: "port_mapping sample_start = []" "port_list sample_start = []"
    by (simp_all add: sample_start_def init_def)
  have c: "port_candidate sample_snmp (if_table sample_start) (3, ''1'') = Some 101"
    "port_candidate sample_snmp (if_table sample_start) (7, ''3'') = Some 101"
    by code_simp+
  from first_claim_wins[OF g d e] l
  have m: "map fst (port_mapping s') = [3, 6]" by simp
  show ?thesis
    using g d e l c m by (intro exI[of _ rd] exI[of _ s']) simp
qed

text \<open>
  C5, as stated, on the router with two bays. The claim puts the repair before the
  exclusion propagation and before the assignment of addresses. In \<^verbatim>\<open>discover\<close> the
  propagation runs inside \<^verbatim>\<open>_load_snmp_tables\<close> (line 79) and the chassis addresses
  are set at lines 85 to 90, the repair follows at line 92: when the tables are loaded,
  module 5 still has the lower bay 3 as its parent and the position 1; the same holds
  when the chassis has got its address \<^verbatim>\<open>0\<close>; only the repair makes the parent the
  upper bay 2 and the position 2, and the addresses of the modules and ports come after.
\<close>

theorem repair_follows_propagation_counterexample:
  "map_sum id (node_view 5) tables_loaded = Inr (Some (PyStr ''3'', ''1''), [], [])
   \<and> map_sum id (node_view 5) chassis_addressed = Inr (Some (PyStr ''3'', ''1''), [], [(1, ''0'')])
   \<and> map_sum id (node_view 5) bays_repaired = Inr (Some (PyInt 2, ''2''), [], [(1, ''0'')])
   \<and> map_sum id (map_option (node_view 5))
        (discover_tree 50 no_elements sample_device bay_snmp init)
      = Inr (Some (Some (PyInt 2, ''2''), [],
               [(1, ''0''), (4, ''0/1''), (5, ''0/1''), (6, ''0/1/1''), (7, ''0/1/1001'')]))"
  by code_simp

text \<open>
  C5, amended. In a run of \<^verbatim>\<open>discover\<close> that gets to the addresses, the tables are
  loaded (with the exclusion propagation) and the chassis addresses are set on the table
  \<open>et\<close> as it was read; then the repair turns \<open>et\<close> into \<open>et'\<close>, changing neither the
  exclusion list nor the addresses given so far nor the keys of the table;
  \<^verbatim>\<open>get_module_list\<close> and \<^verbatim>\<open>add_relative_paths\<close> work on \<open>et'\<close>. When the loop over
  the containers has found an upper bay and a lower bay, both with an index other than
  \<open>0\<close>, every row whose \<^verbatim>\<open>entPhysicalContainedIn\<close> is the lower bay gets the index of
  the upper bay as its parent, and as its position the number of rows contained in the
  upper bay before the repair plus its own position; every other row stays as it was.
\<close>

theorem lower_bay_children_reparented:
  assumes "discover_tree depth elements_of dev sn s = Inr (Some s5)"
  shows "\<exists>s1 s2 s3 s4 et et'.
      load_snmp_tables elements_of sn (s\<lparr>attributes := attributes s @ root_attributes dev\<rparr>) = Inr s1
    \<and> for_each (chassis_path depth) (chassis_list s1) s1 = Inr s2
    \<and> filter_lower_bay_containers sn s2 = Inr s3
    \<and> get_module_list depth sn s3 = Inr s4
    \<and> add_relative_paths depth s4 = Inr s5
    \<and> entity_table s1 = Some et \<and> entity_table s2 = Some et
    \<and> entity_table s3 = Some et' \<and> entity_table s4 = Some et' \<and> entity_table s5 = Some et'
    \<and> exclusion_list s3 = exclusion_list s1 \<and> relative_path s3 = relative_path s2
    \<and> map fst et' = map fst et
    \<and> (\<forall>containers upper lower i row.
          sorted_keys (filter_by_column (\<lambda>row. entPhysicalClass row = ''container'') et)
            = Inr containers
          \<and> find_bays sn containers (None, None) = (Some upper, Some lower)
          \<and> upper \<noteq> 0 \<and> lower \<noteq> 0 \<and> map_of et i = Some row \<longrightarrow>
          (if entPhysicalContainedIn row = PyStr (py_str lower)
           then \<exists>pos. py_int (entPhysicalParentRelPos row) = Some pos
                  \<and> map_of et' i = Some (row\<lparr>entPhysicalContainedIn := PyInt upper,
                       entPhysicalParentRelPos := py_str (int (length (filter_by_column
                         (\<lambda>r. entPhysicalContainedIn r = PyStr (py_str upper)) et)) + pos)\<rparr>)
           else map_of et' i = Some row))"
proof -
  from assms obtain s1 s2 s3 s4 where
    l: "load_snmp_tables elements_of sn (s\<lparr>attributes := attributes s @ root_attributes dev\<rparr>)
          = Inr s1"
    and c: "for_each (chassis_path depth) (chassis_list s1) s1 = Inr s2"
    and b: "filter_lower_bay_containers sn s2 = Inr s3"
    and m: "get_module_list depth sn s3 = Inr s4"
    and a: "add_relative_paths depth s4 = Inr s5"
    by (auto simp: discover_tree_def and_then_eq_Inr split: if_splits)
  from l obtain et where et: "entity_table s1 = Some et" and d: "distinct (map fst et)"
    by (rule load_snmp_tables_table)
  from for_each_preserves[OF c, of entity_table] for_each_preserves[OF c, of exclusion_list]
  have c2: "entity_table s2 = entity_table s1" "exclusion_list s2 = exclusion_list s1"
    by (auto dest: chassis_path_fields)
  with et have et2: "entity_table s2 = Some et" by simp
  from filter_lower_bay_containers_effect[OF b et2 d] obtain et' where
    e3: "entity_table s3 = Some et'" and k: "map fst et' = map fst et"
    and x: "exclusion_list s3 = exclusion_list s2" and r: "relative_path s3 = relative_path s2"
    and rows: "\<forall>containers upper lower i row.
          sorted_keys (filter_by_column (\<lambda>row. entPhysicalClass row = ''container'') et)
            = Inr containers
          \<and> find_bays sn containers (None, None) = (Some upper, Some lower)
          \<and> upper \<noteq> 0 \<and> lower \<noteq> 0 \<and> map_of et i = Some row \<longrightarrow>
          (if entPhysicalContainedIn row = PyStr (py_str lower)
           then \<exists>pos. py_int (entPhysicalParentRelPos row) = Some pos
                  \<and> map_of et' i = Some (row\<lparr>entPhysicalContainedIn := PyInt upper,
                       entPhysicalParentRelPos := py_str (int (length (filter_by_column
                         (\<lambda>r. entPhysicalContainedIn r = PyStr (py_str upper)) et)) + pos)\<rparr>)
           else map_of et' i = Some row)"
    by blast
  from m have "entity_table s4 = entity_table s3"
    unfolding get_module_list_def by (auto dest: module_loop_above)
  with e3 have e4: "entity_table s4 = Some et'" by simp
  from add_relative_paths_table[OF a] e4 have e5: "entity_table s5 = Some et'" by simp
  from l c b m a et et2 e3 e4 e5 x c2(2) r k rows show ?thesis
    by (intro exI[of _ s1] exI[of _ s2] exI[of _ s3] exI[of _ s4] exI[of _ et] exI[of _ et'])
       simp
qed

theorem lower_bay_children_reparented_witness:
  "\<exists>s5 et'. discover_tree 50 no_elements sample_device bay_snmp init = Inr (Some s5)
     \<and> find_bays bay_snmp [2, 3] (None, None) = (Some 2, Some 3)
     \<and> entity_table s5 = Some et'
     \<and> map_of et' 5 = Some \<lparr>entPhysicalParentRelPos = ''2'', entPhysicalContainedIn = PyInt 2,
          entPhysicalClass = ''module'', entPhysicalVendorType = ''cevModuleGeneric'',
          entPhysicalDescr = ''Line card'', entPhysicalName = ''Module 1''\<rparr>
     \<and> map_of et' 4 = Some \<lparr>entPhysicalParentRelPos = ''1'', entPhysicalContainedIn = PyStr ''2'',
          entPhysicalClass = ''module'', entPhysicalVendorType = ''cevModuleGeneric'',
          entPhysicalDescr = ''Line card'', entPhysicalName = ''Module 0''\<rparr>"
proof -
  let ?row5 = "\<lparr>entPhysicalParentRelPos = ''1'', entPhysicalContainedIn = PyStr ''3'',
          entPhysicalClass = ''module'', entPhysicalVendorType = ''cevModuleGeneric'',
          entPhysicalDescr = ''Line card'', entPhysicalName = ''Module 1''\<rparr>"
  let ?row4 = "\<lparr>entPhysicalParentRelPos = ''1'', entPhysicalContainedIn = PyStr ''2'',
          entPhysicalClass = ''module'', entPhysicalVendorType = ''cevModuleGeneric'',
          entPhysicalDescr = ''Line card'', entPhysicalName = ''Module 0''\<rparr>"
  let ?start = "init\<lparr>attributes := attributes init @ root_attributes sample_device\<rparr>"
  have "map_sum id (map_option (\<lambda>s. ()))
          (discover_tree 50 no_elements sample_device bay_snmp init) = Inr (Some ())"
    by code_simp
  then obtain s5 where d: "discover_tree 50 no_elements sample_device bay_snmp init = Inr (Some s5)"
    by (cases "discover_tree 50 no_elements sample_device bay_snmp init") auto
  from lower_bay_children_reparented[OF d] obtain s1 et et' where
    l: "load_snmp_tables no_elements bay_snmp ?start = Inr s1"
    and e1: "entity_table s1 = Some et" and e5: "entity_table s5 = Some et'"
    and rows: "\<And>containers upper lower i row.
          sorted_keys (filter_by_column (\<lambda>row. entPhysicalClass row = ''container'') et)
            = Inr containers \<Longrightarrow>
          find_bays bay_snmp containers (None, None) = (Some upper, Some lower) \<Longrightarrow>
          upper \<noteq> 0 \<Longrightarrow> lower \<noteq> 0 \<Longrightarrow> map_of et i = Some row \<Longrightarrow>
          (if entPhysicalContainedIn row = PyStr (py_str lower)
           then \<exists>pos. py_int (entPhysicalParentRelPos row) = Some pos
                  \<and> map_of et' i = Some (row\<lparr>entPhysicalContainedIn := PyInt upper,
                       entPhysicalParentRelPos := py_str (int (length (filter_by_column
                         (\<lambda>r. entPhysicalContainedIn r = PyStr (py_str upper)) et)) + pos)\<rparr>)
           else map_of et' i = Some row)"
    by blast
  have "map_sum id (\<lambda>s. case entity_table s of
            None \<Rightarrow> None
          | Some t \<Rightarrow> Some
              (sorted_keys (filter_by_column (\<lambda>row. entPhysicalClass row = ''container'') t),
               map_of t 5, map_of t 4,
               length (filter_by_column (\<lambda>r. entPhysicalContainedIn r = PyStr (py_str 2)) t)))
          (load_snmp_tables no_elements bay_snmp ?start)
        = Inr (Some (Inr [2, 3], Some ?row5, Some ?row4, 1))"
    by code_simp
  with l e1 have c: "sorted_keys (filter_by_column (\<lambda>row. entPhysicalClass row = ''container'') et)
        = Inr [2, 3]"
    and m5: "map_of et 5 = Some ?row5" and m4: "map_of et 4 = Some ?row4"
    and n: "length (filter_by_column (\<lambda>r. entPhysicalContainedIn r = PyStr (py_str 2)) et) = 1"
    by simp_all
  have f: "find_bays bay_snmp [2, 3] (None, None) = (Some 2, Some 3)"
    by code_simp
  have p: "py_str 3 = ''3''" "py_str 2 = ''2''" "py_int ''1'' = Some 1"
    by code_simp+
  from rows[OF c f _ _ m5] p n
  have r5: "map_of et' 5 = Some (?row5\<lparr>entPhysicalContainedIn := PyInt 2,
                                         entPhysicalParentRelPos := ''2''\<rparr>)"
    by simp
  from rows[OF c f _ _ m4] p
  have r4: "map_of et' 4 = Some ?row4"
    by simp
  from d f e5 r5 r4 show ?thesis
    by (intro exI[of _ s5] exI[of _ et']) simp
qed

end
